theory Spec2Isabelle
  imports Main "HOL-Library.Word" "HOL-Library.Multiset" "HOL-Library.Sublist"
begin

section \<open>Points, distances and machine integers\<close>

text \<open>
  \<^verbatim>\<open>TravellingSalesman.h\<close> takes the type \<^verbatim>\<open>Point\<close>, its subtraction and the function
  \<^verbatim>\<open>vSize\<close> from \<^verbatim>\<open>intpoint.h\<close>, which is not among the sources.  The point type and the
  subtraction are written down below; \<^verbatim>\<open>vSize\<close>, the magnitude of a vector
  as an \<^verbatim>\<open>int64_t\<close>, is a parameter \<open>vSize\<close> of every function that measures a
  distance.  Distances and insertion costs are \<^verbatim>\<open>int64_t\<close>: 64-bit words,
  added and subtracted with wrap-around and compared as signed numbers (\<open><s\<close>).
\<close>

type_synonym int64 = "64 word"

text \<open>Modelled from the spec: the 2-D point type of \<^verbatim>\<open>intpoint.h\<close>, which is missing.\<close>

record Point =
  X :: int
  Y :: int

text \<open>Modelled from the spec: the vector difference \<^verbatim>\<open>p - q\<close> of \<^verbatim>\<open>intpoint.h\<close>, which is missing.\<close>

definition point_minus :: "Point \<Rightarrow> Point \<Rightarrow> Point" where
  "point_minus p q = \<lparr>X = X p - X q, Y = Y p - Y q\<rparr>"

text \<open>\<^verbatim>\<open>std::numeric_limits<int64_t>::max()\<close>, the initial value of every running minimum.\<close>

definition INT64_MAX :: int64 where
  "INT64_MAX = 0x7FFFFFFFFFFFFFFF"

section \<open>Waypoints\<close>

text \<open>
  \<^verbatim>\<open>struct Waypoint\<close>.  The constructor initialises \<^verbatim>\<open>orientation_indices\<close> and
  \<^verbatim>\<open>element\<close> and leaves \<^verbatim>\<open>best_orientation_index\<close> uninitialised: the field is
  \<open>None\<close> until it is assigned.
\<close>

record 'e Waypoint =
  orientation_indices :: "(Point \<times> Point) list"
  element :: 'e
  best_orientation_index :: "nat option"

text \<open>
  What the C++ leaves undefined is an error value of the model: reading a variable or a
  field that was never assigned, and indexing a vector outside its bounds.
\<close>

datatype error = UninitialisedRead | OutOfBounds

text \<open>
  \<^verbatim>\<open>fillWaypoints\<close> allocates one waypoint per element, in the order of the elements.  The
  model keeps the allocated objects in a list (the heap of the run); the pointer to the
  \<open>i\<close>-th allocated waypoint is the number \<open>i\<close>, so the vector of pointers that
  \<^verbatim>\<open>fillWaypoints\<close> returns is \<open>[0..<length elements]\<close>.
\<close>

definition fillWaypoints :: "('e \<Rightarrow> (Point \<times> Point) list) \<Rightarrow> 'e list \<Rightarrow> 'e Waypoint list" where
  "fillWaypoints get_orientations elements =
     map (\<lambda>e. \<lparr>orientation_indices = get_orientations e, element = e,
                best_orientation_index = None\<rparr>) elements"

text \<open>\<^verbatim>\<open>w->orientation_indices[i]\<close>.\<close>

definition orientation_at :: "'e Waypoint \<Rightarrow> nat \<Rightarrow> error + (Point \<times> Point)" where
  "orientation_at w i =
     (if i < length (orientation_indices w) then Inr (orientation_indices w ! i)
      else Inl OutOfBounds)"

text \<open>\<^verbatim>\<open>w->orientation_indices[w->best_orientation_index]\<close>, read from a waypoint of the path.\<close>

definition chosen_orientation :: "'e Waypoint \<Rightarrow> error + (Point \<times> Point)" where
  "chosen_orientation w =
     (case best_orientation_index w of
        None \<Rightarrow> Inl UninitialisedRead
      | Some i \<Rightarrow> orientation_at w i)"

section \<open>The shuffle\<close>

text \<open>
  \<^verbatim>\<open>std::shuffle\<close> and \<^verbatim>\<open>std::default_random_engine\<close> belong to the C++ library.  The
  parameter \<open>shuffle_engine\<close> gives, for a seed and a length \<open>n\<close>, the order in which
  the shuffle with an engine of that seed leaves the \<open>n\<close> positions of a vector: position
  \<open>k\<close> of the shuffled vector holds what was at position \<open>shuffle_engine seed n ! k\<close>.
  The seed of \<^verbatim>\<open>findPath\<close> is the constant \<^verbatim>\<open>0xDECAFF\<close>.
\<close>

definition rng_seed :: nat where
  "rng_seed = 0xDECAFF"

definition std_shuffle :: "(nat \<Rightarrow> nat \<Rightarrow> nat list) \<Rightarrow> nat \<Rightarrow> 'a list \<Rightarrow> 'a list" where
  "std_shuffle shuffle_engine seed xs = map (\<lambda>k. xs ! k) (shuffle_engine seed (length xs))"

section \<open>The running minimum of an insertion round\<close>

text \<open>
  The three local variables of a round that the \<^verbatim>\<open>tryInsert\<close> functions update through
  pointers.  \<open>best_insert\<close> is a list iterator: the position in the path before which
  the waypoint is to be inserted, the length of the path standing for \<^verbatim>\<open>result.end()\<close>.
  \<open>best_orientation\<close> and \<open>best_insert\<close> are declared without an initial value.
  \<open>inspected\<close> is not a variable of the source: it counts the executions of the loop
  bodies of the three \<^verbatim>\<open>tryInsert\<close> functions.
\<close>

record best =
  best_distance :: int64
  best_orientation :: "nat option"
  best_insert :: "nat option"
  inspected :: nat

text \<open>The block \<^verbatim>\<open>if (distance < *best_distance) { ... }\<close> that ends each loop body.\<close>

definition update_best :: "int64 \<Rightarrow> nat \<Rightarrow> nat \<Rightarrow> best \<Rightarrow> best" where
  "update_best distance ins orientation b =
     (if distance <s best_distance b
      then b\<lparr>best_distance := distance, best_insert := Some ins,
             best_orientation := Some orientation, inspected := Suc (inspected b)\<rparr>
      else b\<lparr>inspected := Suc (inspected b)\<rparr>)"

text \<open>
  \<^verbatim>\<open>tryInsertFirst\<close>.  The null checks of the source are on the addresses of local
  variables and on a pointer that \<^verbatim>\<open>new\<close> returned, so they never fire.  The loop over
  \<^verbatim>\<open>orientation\<close> is the recursion over the list of its values.
\<close>

fun tryInsertFirst_loop ::
  "(Point \<Rightarrow> int64) \<Rightarrow> 'e Waypoint list \<Rightarrow> nat \<Rightarrow> Point option \<Rightarrow> nat list \<Rightarrow> nat \<Rightarrow>
   nat list \<Rightarrow> best \<Rightarrow> error + best" where
  "tryInsertFirst_loop vSize heap waypoint starting_point result first_element [] b = Inr b"
| "tryInsertFirst_loop vSize heap waypoint starting_point result first_element (orientation # rest) b =
     (case orientation_at (heap ! waypoint) orientation of
        Inl e \<Rightarrow> Inl e
      | Inr o_this \<Rightarrow>
         (case chosen_orientation (heap ! (result ! first_element)) of
            Inl e \<Rightarrow> Inl e
          | Inr o_first \<Rightarrow>
             (let before_distance =
                    (case starting_point of
                       None \<Rightarrow> 0
                     | Some sp \<Rightarrow> vSize (point_minus sp (fst o_this)));
                  end_of_this = snd o_this;
                  start_of_first = fst o_first;
                  after_distance = vSize (point_minus end_of_this start_of_first);
                  distance = before_distance + after_distance
              in tryInsertFirst_loop vSize heap waypoint starting_point result first_element rest
                   (update_best distance first_element orientation b))))"

definition tryInsertFirst ::
  "(Point \<Rightarrow> int64) \<Rightarrow> 'e Waypoint list \<Rightarrow> nat \<Rightarrow> Point option \<Rightarrow> nat list \<Rightarrow> nat \<Rightarrow>
   best \<Rightarrow> error + best" where
  "tryInsertFirst vSize heap waypoint starting_point result first_element b =
     tryInsertFirst_loop vSize heap waypoint starting_point result first_element
       [0..<length (orientation_indices (heap ! waypoint))] b"

text \<open>\<^verbatim>\<open>tryInsertLast\<close>.\<close>

fun tryInsertLast_loop ::
  "(Point \<Rightarrow> int64) \<Rightarrow> 'e Waypoint list \<Rightarrow> nat \<Rightarrow> nat list \<Rightarrow> nat \<Rightarrow> nat \<Rightarrow>
   nat list \<Rightarrow> best \<Rightarrow> error + best" where
  "tryInsertLast_loop vSize heap waypoint result last_element after_insert [] b = Inr b"
| "tryInsertLast_loop vSize heap waypoint result last_element after_insert (orientation # rest) b =
     (case chosen_orientation (heap ! (result ! last_element)) of
        Inl e \<Rightarrow> Inl e
      | Inr o_last \<Rightarrow>
         (case orientation_at (heap ! waypoint) orientation of
            Inl e \<Rightarrow> Inl e
          | Inr o_this \<Rightarrow>
             (let end_of_last = snd o_last;
                  start_of_this = fst o_this;
                  distance = vSize (point_minus end_of_last start_of_this)
              in tryInsertLast_loop vSize heap waypoint result last_element after_insert rest
                   (update_best distance after_insert orientation b))))"

definition tryInsertLast ::
  "(Point \<Rightarrow> int64) \<Rightarrow> 'e Waypoint list \<Rightarrow> nat \<Rightarrow> nat list \<Rightarrow> nat \<Rightarrow> nat \<Rightarrow>
   best \<Rightarrow> error + best" where
  "tryInsertLast vSize heap waypoint result last_element after_insert b =
     tryInsertLast_loop vSize heap waypoint result last_element after_insert
       [0..<length (orientation_indices (heap ! waypoint))] b"

text \<open>\<^verbatim>\<open>tryInsertMiddle\<close>.\<close>

fun tryInsertMiddle_loop ::
  "(Point \<Rightarrow> int64) \<Rightarrow> 'e Waypoint list \<Rightarrow> nat \<Rightarrow> nat list \<Rightarrow> nat \<Rightarrow> nat \<Rightarrow>
   nat list \<Rightarrow> best \<Rightarrow> error + best" where
  "tryInsertMiddle_loop vSize heap waypoint result before_insert after_insert [] b = Inr b"
| "tryInsertMiddle_loop vSize heap waypoint result before_insert after_insert (orientation # rest) b =
     (case chosen_orientation (heap ! (result ! before_insert)) of
        Inl e \<Rightarrow> Inl e
      | Inr o_before \<Rightarrow>
         (case chosen_orientation (heap ! (result ! after_insert)) of
            Inl e \<Rightarrow> Inl e
          | Inr o_after \<Rightarrow>
             (case orientation_at (heap ! waypoint) orientation of
                Inl e \<Rightarrow> Inl e
              | Inr o_this \<Rightarrow>
                 (let end_of_before = snd o_before;
                      start_of_after = fst o_after;
                      start_of_this = fst o_this;
                      end_of_this = snd o_this;
                      removed_distance = vSize (point_minus end_of_before start_of_after);
                      before_distance = vSize (point_minus end_of_before start_of_this);
                      after_distance = vSize (point_minus end_of_this start_of_after);
                      distance = before_distance + after_distance - removed_distance
                  in tryInsertMiddle_loop vSize heap waypoint result before_insert after_insert rest
                       (update_best distance after_insert orientation b)))))"

definition tryInsertMiddle ::
  "(Point \<Rightarrow> int64) \<Rightarrow> 'e Waypoint list \<Rightarrow> nat \<Rightarrow> nat list \<Rightarrow> nat \<Rightarrow> nat \<Rightarrow>
   best \<Rightarrow> error + best" where
  "tryInsertMiddle vSize heap waypoint result before_insert after_insert b =
     tryInsertMiddle_loop vSize heap waypoint result before_insert after_insert
       [0..<length (orientation_indices (heap ! waypoint))] b"

section \<open>One insertion round\<close>

text \<open>
  The loop over \<^verbatim>\<open>before_insert\<close> (lines 275 to 287): the iterator runs over the
  positions of the path, \<^verbatim>\<open>after_insert\<close> is the next position, and the last position
  of the path is the one whose successor is \<^verbatim>\<open>result.end()\<close>.
\<close>

fun try_positions ::
  "(Point \<Rightarrow> int64) \<Rightarrow> 'e Waypoint list \<Rightarrow> nat \<Rightarrow> nat list \<Rightarrow> nat list \<Rightarrow> best \<Rightarrow> error + best" where
  "try_positions vSize heap waypoint result [] b = Inr b"
| "try_positions vSize heap waypoint result (before_insert # rest) b =
     (let after_insert = Suc before_insert
      in case (if after_insert = length result
               then tryInsertLast vSize heap waypoint result before_insert after_insert b
               else tryInsertMiddle vSize heap waypoint result before_insert after_insert b) of
           Inl e \<Rightarrow> Inl e
         | Inr b' \<Rightarrow> try_positions vSize heap waypoint result rest b')"

text \<open>
  The scan of a round (lines 267 to 287): the running minimum starts at the sentinel, with
  \<^verbatim>\<open>best_insert\<close> and \<^verbatim>\<open>best_orientation_index\<close> unassigned; the front position is
  tried first (\<^verbatim>\<open>result.begin()\<close> is position 0), then every other position.
\<close>

definition find_best_insertion ::
  "(Point \<Rightarrow> int64) \<Rightarrow> Point option \<Rightarrow> 'e Waypoint list \<Rightarrow> nat list \<Rightarrow> nat \<Rightarrow> error + best" where
  "find_best_insertion vSize starting_point heap result waypoint =
     (case tryInsertFirst vSize heap waypoint starting_point result 0
             \<lparr>best_distance = INT64_MAX, best_orientation = None, best_insert = None,
              inspected = 0\<rparr> of
        Inl e \<Rightarrow> Inl e
      | Inr b \<Rightarrow> try_positions vSize heap waypoint result [0..<length result] b)"

text \<open>
  The state of the main loop: the allocated waypoints (indexed by their pointers), the
  working path \<^verbatim>\<open>result\<close> (a list of pointers), and the number of rounds done so far,
  which is not a variable of the source.
\<close>

record 'e tsp_state =
  waypoints :: "'e Waypoint list"
  path :: "nat list"
  rounds :: nat

text \<open>
  The end of a round (lines 289 to 298): the waypoint's field is assigned from the local
  variable, then the waypoint is inserted before \<^verbatim>\<open>best_insert\<close>, or appended when that
  is \<^verbatim>\<open>result.end()\<close>.  Reading either local variable before any candidate assigned it
  is an error.
\<close>

definition insert_waypoint :: "'e tsp_state \<Rightarrow> nat \<Rightarrow> best \<Rightarrow> error + 'e tsp_state" where
  "insert_waypoint st waypoint b =
     (case best_orientation b of
        None \<Rightarrow> Inl UninitialisedRead
      | Some bo \<Rightarrow>
         (let heap = (waypoints st)
                [waypoint := (waypoints st ! waypoint)\<lparr>best_orientation_index := Some bo\<rparr>]
          in case best_insert b of
               None \<Rightarrow> Inl UninitialisedRead
             | Some bi \<Rightarrow>
                 if bi = length (path st)
                 then Inr \<lparr>waypoints = heap, path = path st @ [waypoint],
                           rounds = Suc (rounds st)\<rparr>
                 else Inr \<lparr>waypoints = heap,
                           path = take bi (path st) @ waypoint # drop bi (path st),
                           rounds = Suc (rounds st)\<rparr>))"

definition insert_round ::
  "(Point \<Rightarrow> int64) \<Rightarrow> Point option \<Rightarrow> 'e tsp_state \<Rightarrow> nat \<Rightarrow> error + 'e tsp_state" where
  "insert_round vSize starting_point st waypoint =
     (case find_best_insertion vSize starting_point (waypoints st) (path st) waypoint of
        Inl e \<Rightarrow> Inl e
      | Inr b \<Rightarrow> insert_waypoint st waypoint b)"

section \<open>findPath\<close>

text \<open>
  The choice of the first waypoint's orientation when there is a starting point (lines 248
  to 258): the pair is \<^verbatim>\<open>best_distance\<close> and \<^verbatim>\<open>best_orientation_index\<close>.
\<close>

fun seed_orientation_loop ::
  "(Point \<Rightarrow> int64) \<Rightarrow> Point \<Rightarrow> 'e Waypoint \<Rightarrow> nat list \<Rightarrow> int64 \<times> nat option \<Rightarrow>
   error + (int64 \<times> nat option)" where
  "seed_orientation_loop vSize starting_point w [] acc = Inr acc"
| "seed_orientation_loop vSize starting_point w (orientation_index # rest) acc =
     (case orientation_at w orientation_index of
        Inl e \<Rightarrow> Inl e
      | Inr o_this \<Rightarrow>
         (let distance = vSize (point_minus starting_point (fst o_this))
          in if distance <s fst acc
             then seed_orientation_loop vSize starting_point w rest (distance, Some orientation_index)
             else seed_orientation_loop vSize starting_point w rest acc))"

text \<open>Lines 241 to 261: the path starts as the first shuffled waypoint alone.\<close>

definition seed_path ::
  "(Point \<Rightarrow> int64) \<Rightarrow> Point option \<Rightarrow> 'e Waypoint list \<Rightarrow> nat list \<Rightarrow> error + 'e tsp_state" where
  "seed_path vSize starting_point heap shuffled =
     (case starting_point of
        None \<Rightarrow>
          Inr \<lparr>waypoints = heap[shuffled ! 0 :=
                   (heap ! (shuffled ! 0))\<lparr>best_orientation_index := Some 0\<rparr>],
               path = [shuffled ! 0], rounds = 0\<rparr>
      | Some sp \<Rightarrow>
         (case seed_orientation_loop vSize sp (heap ! (shuffled ! 0))
                 [0..<length (orientation_indices (heap ! (shuffled ! 0)))] (INT64_MAX, None) of
            Inl e \<Rightarrow> Inl e
          | Inr acc \<Rightarrow>
             (case snd acc of
                None \<Rightarrow> Inl UninitialisedRead
              | Some bo \<Rightarrow>
                  Inr \<lparr>waypoints = heap[shuffled ! 0 :=
                           (heap ! (shuffled ! 0))\<lparr>best_orientation_index := Some bo\<rparr>],
                       path = [shuffled ! 0], rounds = 0\<rparr>)))"

text \<open>The main loop (line 264), over the values of \<^verbatim>\<open>next_to_insert\<close>.\<close>

fun insert_rest ::
  "(Point \<Rightarrow> int64) \<Rightarrow> Point option \<Rightarrow> nat list \<Rightarrow> nat list \<Rightarrow> 'e tsp_state \<Rightarrow>
   error + 'e tsp_state" where
  "insert_rest vSize starting_point shuffled [] st = Inr st"
| "insert_rest vSize starting_point shuffled (next_to_insert # rest) st =
     (case insert_round vSize starting_point st (shuffled ! next_to_insert) of
        Inl e \<Rightarrow> Inl e
      | Inr st' \<Rightarrow> insert_rest vSize starting_point shuffled rest st')"

text \<open>Lines 302 to 311: the path is copied out, elements and chosen orientations.\<close>

fun linearise :: "'e Waypoint list \<Rightarrow> nat list \<Rightarrow> error + ('e list \<times> nat list)" where
  "linearise heap [] = Inr ([], [])"
| "linearise heap (waypoint # rest) =
     (case best_orientation_index (heap ! waypoint) of
        None \<Rightarrow> Inl UninitialisedRead
      | Some bo \<Rightarrow>
         (case linearise heap rest of
            Inl e \<Rightarrow> Inl e
          | Inr r \<Rightarrow> Inr (element (heap ! waypoint) # fst r, bo # snd r)))"

text \<open>
  \<^verbatim>\<open>findPath\<close>.  \<open>element_orientations\<close> is the vector the caller passes by reference;
  the result is the returned vector together with the final content of that vector.
\<close>

definition findPath ::
  "(Point \<Rightarrow> int64) \<Rightarrow> (nat \<Rightarrow> nat \<Rightarrow> nat list) \<Rightarrow> ('e \<Rightarrow> (Point \<times> Point) list) \<Rightarrow>
   'e list \<Rightarrow> nat list \<Rightarrow> Point option \<Rightarrow> error + ('e list \<times> nat list)" where
  "findPath vSize shuffle_engine get_orientations elements element_orientations starting_point =
     (if elements = [] then Inr ([], element_orientations)
      else
        (let heap = fillWaypoints get_orientations elements;
             shuffled = std_shuffle shuffle_engine rng_seed [0..<length heap]
         in case seed_path vSize starting_point heap shuffled of
              Inl e \<Rightarrow> Inl e
            | Inr st \<Rightarrow>
               (case insert_rest vSize starting_point shuffled [1..<length shuffled] st of
                  Inl e \<Rightarrow> Inl e
                | Inr st' \<Rightarrow> linearise (waypoints st') (path st'))))"

text \<open>The state of \<^verbatim>\<open>findPath\<close> after the seeding and the first \<open>k\<close> rounds of the main loop.\<close>

definition state_after ::
  "(Point \<Rightarrow> int64) \<Rightarrow> (nat \<Rightarrow> nat \<Rightarrow> nat list) \<Rightarrow> ('e \<Rightarrow> (Point \<times> Point) list) \<Rightarrow>
   'e list \<Rightarrow> Point option \<Rightarrow> nat \<Rightarrow> error + 'e tsp_state" where
  "state_after vSize shuffle_engine get_orientations elements starting_point k =
     (let heap = fillWaypoints get_orientations elements;
          shuffled = std_shuffle shuffle_engine rng_seed [0..<length heap]
      in case seed_path vSize starting_point heap shuffled of
           Inl e \<Rightarrow> Inl e
         | Inr st \<Rightarrow> insert_rest vSize starting_point shuffled [1..<Suc k] st)"

section \<open>Insertion costs as the specification words them\<close>

text \<open>
  The distance between two points, the entry and exit point of a waypoint in a given
  orientation and in its chosen orientation, and the cost of inserting a candidate in front
  of the path, behind it, and between two neighbours.
\<close>

definition distance :: "(Point \<Rightarrow> int64) \<Rightarrow> Point \<Rightarrow> Point \<Rightarrow> int64" where
  "distance vSize a b = vSize (point_minus a b)"

definition entry_point :: "'e Waypoint \<Rightarrow> nat \<Rightarrow> Point" where
  "entry_point w i = fst (orientation_indices w ! i)"

definition exit_point :: "'e Waypoint \<Rightarrow> nat \<Rightarrow> Point" where
  "exit_point w i = snd (orientation_indices w ! i)"

definition chosen_entry :: "'e Waypoint \<Rightarrow> Point" where
  "chosen_entry w = entry_point w (the (best_orientation_index w))"

definition chosen_exit :: "'e Waypoint \<Rightarrow> Point" where
  "chosen_exit w = exit_point w (the (best_orientation_index w))"

definition front_cost ::
  "(Point \<Rightarrow> int64) \<Rightarrow> Point option \<Rightarrow> 'e Waypoint \<Rightarrow> nat \<Rightarrow> 'e Waypoint \<Rightarrow> int64" where
  "front_cost vSize starting_point candidate i first_element =
     (case starting_point of
        None \<Rightarrow> 0
      | Some sp \<Rightarrow> distance vSize sp (entry_point candidate i))
     + distance vSize (exit_point candidate i) (chosen_entry first_element)"

definition back_cost :: "(Point \<Rightarrow> int64) \<Rightarrow> 'e Waypoint \<Rightarrow> nat \<Rightarrow> 'e Waypoint \<Rightarrow> int64" where
  "back_cost vSize candidate i last_element =
     distance vSize (chosen_exit last_element) (entry_point candidate i)"

definition middle_cost ::
  "(Point \<Rightarrow> int64) \<Rightarrow> 'e Waypoint \<Rightarrow> nat \<Rightarrow> 'e Waypoint \<Rightarrow> 'e Waypoint \<Rightarrow> int64" where
  "middle_cost vSize candidate i prev_element next_element =
     distance vSize (chosen_exit prev_element) (entry_point candidate i)
     + distance vSize (exit_point candidate i) (chosen_entry next_element)
     - distance vSize (chosen_exit prev_element) (chosen_entry next_element)"

text \<open>
  The cost of inserting waypoint \<open>waypoint\<close> in orientation \<open>i\<close> before position
  \<open>ins\<close> of the path: position 0 is the front, the length of the path is the back.
\<close>

definition insertion_cost ::
  "(Point \<Rightarrow> int64) \<Rightarrow> Point option \<Rightarrow> 'e Waypoint list \<Rightarrow> nat list \<Rightarrow> nat \<Rightarrow> nat \<Rightarrow> nat \<Rightarrow>
   int64" where
  "insertion_cost vSize starting_point heap result waypoint ins i =
     (case ins of
        0 \<Rightarrow> front_cost vSize starting_point (heap ! waypoint) i (heap ! (result ! 0))
      | Suc prev \<Rightarrow>
          if ins = length result
          then back_cost vSize (heap ! waypoint) i (heap ! (result ! prev))
          else middle_cost vSize (heap ! waypoint) i (heap ! (result ! prev))
                 (heap ! (result ! ins)))"

text \<open>
  A scan in the abstract: the candidates, each a cost with a position and an orientation,
  are offered to the running minimum one after the other.
\<close>

definition scan_candidates :: "(int64 \<times> nat \<times> nat) list \<Rightarrow> best \<Rightarrow> best" where
  "scan_candidates cs b =
     foldl (\<lambda>b c. update_best (fst c) (fst (snd c)) (snd (snd c)) b) b cs"

text \<open>The candidates of a round in scan order: positions ascending, orientations ascending.\<close>

definition round_candidates ::
  "(Point \<Rightarrow> int64) \<Rightarrow> Point option \<Rightarrow> 'e Waypoint list \<Rightarrow> nat list \<Rightarrow> nat \<Rightarrow>
   (int64 \<times> nat \<times> nat) list" where
  "round_candidates vSize starting_point heap result waypoint =
     concat (map (\<lambda>ins. map (\<lambda>i. (insertion_cost vSize starting_point heap result waypoint ins i,
                                      ins, i))
                            [0..<length (orientation_indices (heap ! waypoint))])
                 [0..<Suc (length result)])"

text \<open>The running minimum \<open>b'\<close> holds what \<open>b\<close> held.\<close>

definition unchanged :: "best \<Rightarrow> best \<Rightarrow> bool" where
  "unchanged b b' =
     (best_distance b' = best_distance b \<and> best_orientation b' = best_orientation b
      \<and> best_insert b' = best_insert b)"

text \<open>
  The running minimum \<open>b'\<close> holds the \<open>k\<close>-th candidate of the list, and every
  earlier candidate costs strictly more.
\<close>

definition chose :: "(int64 \<times> nat \<times> nat) list \<Rightarrow> best \<Rightarrow> nat \<Rightarrow> bool" where
  "chose cs b' k =
     (k < length cs
      \<and> cs ! k = (best_distance b', the (best_insert b'), the (best_orientation b'))
      \<and> best_insert b' \<noteq> None \<and> best_orientation b' \<noteq> None
      \<and> (\<forall>j<k. best_distance b' <s fst (cs ! j)))"

text \<open>The running minimum at the start of a round.\<close>

definition sentinel :: best where
  "sentinel = \<lparr>best_distance = INT64_MAX, best_orientation = None, best_insert = None,
              inspected = 0\<rparr>"

text \<open>
  The state \<open>st\<close> after one more round that has put waypoint \<open>w\<close> in orientation
  \<open>i\<close> before position \<open>ins\<close> of the path.
\<close>

definition inserted :: "'e tsp_state \<Rightarrow> nat \<Rightarrow> nat \<Rightarrow> nat \<Rightarrow> 'e tsp_state" where
  "inserted st w ins i =
     \<lparr>waypoints = (waypoints st)[w := (waypoints st ! w)\<lparr>best_orientation_index := Some i\<rparr>],
      path = take ins (path st) @ w # drop ins (path st),
      rounds = Suc (rounds st)\<rparr>"

text \<open>The state after the seeding: waypoint \<open>w\<close> alone on the path, in orientation \<open>i\<close>.\<close>

definition seeded :: "'e Waypoint list \<Rightarrow> nat \<Rightarrow> nat \<Rightarrow> 'e tsp_state" where
  "seeded heap w i =
     \<lparr>waypoints = heap[w := (heap ! w)\<lparr>best_orientation_index := Some i\<rparr>],
      path = [w], rounds = 0\<rparr>"

text \<open>
  State \<open>st'\<close> comes from \<open>st\<close> by placing the waypoints \<open>ws\<close>: the elements and
  the orientation candidates are the same, every waypoint outside \<open>ws\<close> is the same
  object with the same fields, the old path is a subsequence of the new one, and the new
  path holds the waypoints \<open>ws\<close> in addition.
\<close>

definition extends :: "'e tsp_state \<Rightarrow> 'e tsp_state \<Rightarrow> nat list \<Rightarrow> bool" where
  "extends st st' ws =
     (length (waypoints st') = length (waypoints st)
      \<and> (\<forall>p. element (waypoints st' ! p) = element (waypoints st ! p)
             \<and> orientation_indices (waypoints st' ! p) = orientation_indices (waypoints st ! p))
      \<and> (\<forall>p. p \<notin> set ws \<longrightarrow> waypoints st' ! p = waypoints st ! p)
      \<and> mset (path st') = mset (path st) + mset ws
      \<and> subseq (path st) (path st')
      \<and> rounds st' = rounds st + length ws)"

section \<open>Invariants of the run\<close>

text \<open>A waypoint on the path has a chosen orientation, and it is one of its candidates.\<close>

definition placed_ok :: "'e Waypoint \<Rightarrow> bool" where
  "placed_ok w =
     (case best_orientation_index w of
        None \<Rightarrow> False
      | Some i \<Rightarrow> i < length (orientation_indices w))"

text \<open>
  The path is not empty and holds distinct, valid pointers to placed waypoints; the field
  of every waypoint that is not on the path has never been assigned.  The functions above
  dereference pointers and list iterators with \<open>!\<close>; under this invariant every such
  access is within range.
\<close>

definition path_inv :: "'e tsp_state \<Rightarrow> bool" where
  "path_inv st =
     (path st \<noteq> [] \<and> distinct (path st)
      \<and> (\<forall>p\<in>set (path st). p < length (waypoints st) \<and> placed_ok (waypoints st ! p))
      \<and> (\<forall>p<length (waypoints st). p \<notin> set (path st) \<longrightarrow>
            best_orientation_index (waypoints st ! p) = None))"

section \<open>A small instance\<close>

text \<open>
  Concrete parameters for the examples: a distance function (the taxicab length, capped at
  1000) standing in for \<^verbatim>\<open>vSize\<close>, a shuffle that reverses the vector, and a resolver
  that gives the element \<open>e\<close> the vertical segment from \<open>(e, 0)\<close> to \<open>(e, 10)\<close>,
  traversable in both directions.
\<close>

definition example_vSize :: "Point \<Rightarrow> int64" where
  "example_vSize p = of_nat (min (nat \<bar>X p\<bar> + nat \<bar>Y p\<bar>) 1000)"

definition example_engine :: "nat \<Rightarrow> nat \<Rightarrow> nat list" where
  "example_engine seed n = rev [0..<n]"

definition example_orientations :: "nat \<Rightarrow> (Point \<times> Point) list" where
  "example_orientations e =
     [(\<lparr>X = int e, Y = 0\<rparr>, \<lparr>X = int e, Y = 10\<rparr>),
      (\<lparr>X = int e, Y = 10\<rparr>, \<lparr>X = int e, Y = 0\<rparr>)]"

text \<open>
  A heap of three waypoints for the elements 5, 1 and 3: the first two are on the path, in
  orientations 0 and 1, the third is still to be placed.
\<close>

definition example_heap :: "nat Waypoint list" where
  "example_heap =
     [\<lparr>orientation_indices = example_orientations 5, element = 5,
       best_orientation_index = Some 0\<rparr>,
      \<lparr>orientation_indices = example_orientations 1, element = 1,
       best_orientation_index = Some 1\<rparr>,
      \<lparr>orientation_indices = example_orientations 3, element = 3,
       best_orientation_index = None\<rparr>]"

section \<open>Signed comparison with the sentinel\<close>

lemma sint_INT64_MAX: "sint INT64_MAX = 2 ^ 63 - 1"
  by (simp add: INT64_MAX_def)

lemma sless_INT64_MAX: "w \<noteq> INT64_MAX \<Longrightarrow> w <s INT64_MAX"
proof -
  assume ne: "w \<noteq> INT64_MAX"
  have "sint w < 2 ^ 63" using sint_lt [of w] by simp
  moreover have "sint w \<noteq> sint INT64_MAX" using ne by (simp add: word_eq_iff_signed [where ?'a = int])
  ultimately show ?thesis by (simp add: word_sless_alt sint_INT64_MAX)
qed

lemma not_sless_INT64_MAX: "\<not> INT64_MAX <s w"
  using sint_lt [of w] by (simp add: word_sless_alt sint_INT64_MAX)

section \<open>Scans of candidate lists\<close>

lemma scan_candidates_Nil [simp]: "scan_candidates [] b = b"
  by (simp add: scan_candidates_def)

lemma scan_candidates_Cons [simp]:
  "scan_candidates (c # cs) b = scan_candidates cs (update_best (fst c) (fst (snd c)) (snd (snd c)) b)"
  by (simp add: scan_candidates_def)

lemma scan_candidates_append:
  "scan_candidates (cs @ ds) b = scan_candidates ds (scan_candidates cs b)"
  by (simp add: scan_candidates_def)

lemma scan_candidates_snoc:
  "scan_candidates (cs @ [c]) b = update_best (fst c) (fst (snd c)) (snd (snd c)) (scan_candidates cs b)"
  by (simp add: scan_candidates_def)

lemma inspected_scan: "inspected (scan_candidates cs b) = inspected b + length cs"
  by (induction cs arbitrary: b) (auto simp: update_best_def)

section \<open>The scan keeps the first minimum\<close>

lemma scan_first_min:
  "(\<forall>c\<in>set cs. best_distance (scan_candidates cs b) \<le>s fst c)
   \<and> best_distance (scan_candidates cs b) \<le>s best_distance b
   \<and> (unchanged b (scan_candidates cs b)
       \<or> (best_distance (scan_candidates cs b) <s best_distance b \<and> (\<exists>k. chose cs (scan_candidates cs b) k)))"
proof (induction cs rule: rev_induct)
  case Nil
  show ?case by (simp add: unchanged_def)
next
  case (snoc c cs)
  let ?b1 = "scan_candidates cs b"
  let ?b2 = "scan_candidates (cs @ [c]) b"
  have b2: "?b2 = update_best (fst c) (fst (snd c)) (snd (snd c)) ?b1"
    by (rule scan_candidates_snoc)
  show ?case
  proof (cases "fst c <s best_distance ?b1")
    case True
    then have bd: "best_distance ?b2 = fst c" and bi: "best_insert ?b2 = Some (fst (snd c))"
      and bo: "best_orientation ?b2 = Some (snd (snd c))"
      by (simp_all add: b2 update_best_def)
    have all: "\<forall>d\<in>set (cs @ [c]). best_distance ?b2 \<le>s fst d"
      using snoc True by (auto simp: bd word_sless_alt word_sle_eq)
    have le: "best_distance ?b2 <s best_distance b"
      using snoc True by (auto simp: bd word_sless_alt word_sle_eq)
    have "fst c <s fst (cs ! j)" if "j < length cs" for j
    proof -
      from that have "cs ! j \<in> set cs" by simp
      with snoc have "best_distance ?b1 \<le>s fst (cs ! j)" by blast
      with True show ?thesis by (simp add: word_sless_alt word_sle_eq)
    qed
    then have "chose (cs @ [c]) ?b2 (length cs)"
      unfolding chose_def bd bi bo by (simp add: nth_append)
    with all le show ?thesis by (auto simp: word_sless_alt word_sle_eq)
  next
    case False
    then have bd: "best_distance ?b2 = best_distance ?b1" and bi: "best_insert ?b2 = best_insert ?b1"
      and bo: "best_orientation ?b2 = best_orientation ?b1"
      by (simp_all add: b2 update_best_def)
    have all: "\<forall>d\<in>set (cs @ [c]). best_distance ?b2 \<le>s fst d"
      using snoc False by (auto simp: bd word_sless_alt word_sle_eq)
    have le: "best_distance ?b2 \<le>s best_distance b"
      using snoc by (simp add: bd)
    have ch: "chose (cs @ [c]) ?b2 k" if "chose cs ?b1 k" for k
      using that unfolding chose_def bd bi bo by (auto simp: nth_append)
    have un: "unchanged b ?b2" if "unchanged b ?b1"
      using that unfolding unchanged_def bd bi bo by simp
    from snoc have "unchanged b ?b1 \<or> (best_distance ?b1 <s best_distance b \<and> (\<exists>k. chose cs ?b1 k))"
      by blast
    then have "unchanged b ?b2 \<or> (best_distance ?b2 <s best_distance b \<and> (\<exists>k. chose (cs @ [c]) ?b2 k))"
      using ch un bd by auto
    with all le show ?thesis by blast
  qed
qed


section \<open>The loops of a round are scans\<close>

lemma chosen_orientation_placed:
  "placed_ok w \<Longrightarrow>
   chosen_orientation w = Inr (orientation_indices w ! the (best_orientation_index w))"
  by (auto simp: placed_ok_def chosen_orientation_def orientation_at_def split: option.splits)

lemma tryInsertFirst_loop_scan:
  assumes "placed_ok (heap ! (result ! first_element))"
    and "\<forall>i\<in>set os. i < length (orientation_indices (heap ! waypoint))"
  shows "tryInsertFirst_loop vSize heap waypoint sp result first_element os b =
         Inr (scan_candidates
                (map (\<lambda>i. (front_cost vSize sp (heap ! waypoint) i (heap ! (result ! first_element)),
                           first_element, i)) os) b)"
  using assms(2)
proof (induction os arbitrary: b)
  case Nil
  show ?case by simp
next
  case (Cons i os)
  then have "i < length (orientation_indices (heap ! waypoint))" by simp
  then show ?case
    using Cons assms(1)
    by (simp add: orientation_at_def chosen_orientation_placed front_cost_def distance_def
        entry_point_def exit_point_def chosen_entry_def Let_def split: option.splits)
qed

lemma tryInsertLast_loop_scan:
  assumes "placed_ok (heap ! (result ! last_element))"
    and "\<forall>i\<in>set os. i < length (orientation_indices (heap ! waypoint))"
  shows "tryInsertLast_loop vSize heap waypoint result last_element after_insert os b =
         Inr (scan_candidates
                (map (\<lambda>i. (back_cost vSize (heap ! waypoint) i (heap ! (result ! last_element)),
                           after_insert, i)) os) b)"
  using assms(2)
proof (induction os arbitrary: b)
  case Nil
  show ?case by simp
next
  case (Cons i os)
  then have "i < length (orientation_indices (heap ! waypoint))" by simp
  then show ?case
    using Cons assms(1)
    by (simp add: orientation_at_def chosen_orientation_placed back_cost_def distance_def
        entry_point_def exit_point_def chosen_exit_def Let_def)
qed

lemma tryInsertMiddle_loop_scan:
  assumes "placed_ok (heap ! (result ! before_insert))"
    and "placed_ok (heap ! (result ! after_insert))"
    and "\<forall>i\<in>set os. i < length (orientation_indices (heap ! waypoint))"
  shows "tryInsertMiddle_loop vSize heap waypoint result before_insert after_insert os b =
         Inr (scan_candidates
                (map (\<lambda>i. (middle_cost vSize (heap ! waypoint) i (heap ! (result ! before_insert))
                              (heap ! (result ! after_insert)),
                           after_insert, i)) os) b)"
  using assms(3)
proof (induction os arbitrary: b)
  case Nil
  show ?case by simp
next
  case (Cons i os)
  then have "i < length (orientation_indices (heap ! waypoint))" by simp
  then show ?case
    using Cons assms(1,2)
    by (simp add: orientation_at_def chosen_orientation_placed middle_cost_def distance_def
        entry_point_def exit_point_def chosen_exit_def chosen_entry_def Let_def)
qed

lemma insertion_cost_Suc:
  "insertion_cost vSize sp heap result waypoint (Suc p) i =
     (if Suc p = length result
      then back_cost vSize (heap ! waypoint) i (heap ! (result ! p))
      else middle_cost vSize (heap ! waypoint) i (heap ! (result ! p)) (heap ! (result ! Suc p)))"
  by (simp add: insertion_cost_def)

lemma try_positions_scan:
  assumes "\<forall>p\<in>set result. placed_ok (heap ! p)"
    and "\<forall>p\<in>set ps. p < length result"
  shows "try_positions vSize heap waypoint result ps b =
         Inr (scan_candidates
                (concat (map (\<lambda>p. map (\<lambda>i. (insertion_cost vSize sp heap result waypoint (Suc p) i,
                                            Suc p, i))
                                    [0..<length (orientation_indices (heap ! waypoint))]) ps)) b)"
  using assms(2)
proof (induction ps arbitrary: b)
  case Nil
  show ?case by simp
next
  case (Cons p ps)
  then have p: "p < length result" by simp
  with assms(1) have okp: "placed_ok (heap ! (result ! p))" by simp
  let ?m = "length (orientation_indices (heap ! waypoint))"
  let ?here = "map (\<lambda>i. (insertion_cost vSize sp heap result waypoint (Suc p) i, Suc p, i)) [0..<?m]"
  have step: "(if Suc p = length result
               then tryInsertLast vSize heap waypoint result p (Suc p) b
               else tryInsertMiddle vSize heap waypoint result p (Suc p) b)
              = Inr (scan_candidates ?here b)"
  proof (cases "Suc p = length result")
    case True
    have "tryInsertLast vSize heap waypoint result p (Suc p) b = Inr (scan_candidates ?here b)"
      unfolding insertion_cost_Suc tryInsertLast_def using okp True
      by (simp add: tryInsertLast_loop_scan)
    with True show ?thesis by simp
  next
    case False
    with p have "Suc p < length result" by simp
    with assms(1) have "placed_ok (heap ! (result ! Suc p))" by simp
    then have "tryInsertMiddle vSize heap waypoint result p (Suc p) b = Inr (scan_candidates ?here b)"
      unfolding insertion_cost_Suc tryInsertMiddle_def using okp False
      by (simp add: tryInsertMiddle_loop_scan)
    with False show ?thesis by simp
  qed
  have "try_positions vSize heap waypoint result (p # ps) b =
        try_positions vSize heap waypoint result ps (scan_candidates ?here b)"
    using step by (simp add: Let_def)
  also have "\<dots> = Inr (scan_candidates
                (concat (map (\<lambda>p. map (\<lambda>i. (insertion_cost vSize sp heap result waypoint (Suc p) i,
                                            Suc p, i)) [0..<?m]) ps)) (scan_candidates ?here b))"
    using Cons by simp
  finally show ?case by (simp add: scan_candidates_append)
qed

lemma round_candidates_split:
  "round_candidates vSize sp heap result waypoint =
     map (\<lambda>i. (insertion_cost vSize sp heap result waypoint 0 i, 0, i))
        [0..<length (orientation_indices (heap ! waypoint))]
     @ concat (map (\<lambda>p. map (\<lambda>i. (insertion_cost vSize sp heap result waypoint (Suc p) i, Suc p, i))
                              [0..<length (orientation_indices (heap ! waypoint))])
                   [0..<length result])"
proof -
  have "[0..<Suc (length result)] = 0 # map Suc [0..<length result]"
    by (simp add: upt_conv_Cons map_Suc_upt del: upt_Suc)
  then show ?thesis
    unfolding round_candidates_def by (simp add: comp_def del: upt_Suc)
qed

lemma find_best_insertion_scan:
  assumes "result \<noteq> []" and "\<forall>p\<in>set result. placed_ok (heap ! p)"
  shows "find_best_insertion vSize sp heap result waypoint =
         Inr (scan_candidates (round_candidates vSize sp heap result waypoint) sentinel)"
proof -
  from assms have "placed_ok (heap ! (result ! 0))" by (cases result) simp_all
  then have first: "tryInsertFirst vSize heap waypoint sp result 0 sentinel =
      Inr (scan_candidates
             (map (\<lambda>i. (insertion_cost vSize sp heap result waypoint 0 i, 0, i))
                [0..<length (orientation_indices (heap ! waypoint))]) sentinel)"
    by (simp add: tryInsertFirst_def tryInsertFirst_loop_scan insertion_cost_def)
  show ?thesis
    unfolding find_best_insertion_def sentinel_def [symmetric]
    by (simp add: first try_positions_scan [OF assms(2), where sp = sp]
        round_candidates_split scan_candidates_append)
qed


section \<open>The candidates of a round and what the scan chooses\<close>

lemma length_concat_map_upt:
  "length (concat (map (\<lambda>a. map (f a) [0..<m]) [0..<n])) = n * m"
  by (induction n) simp_all

lemma nth_concat_map_upt:
  "a < n \<Longrightarrow> i < m \<Longrightarrow> concat (map (\<lambda>a. map (f a) [0..<m]) [0..<n]) ! (a * m + i) = f a i"
proof (induction n)
  case 0
  then show ?case by simp
next
  case (Suc n)
  let ?pre = "concat (map (\<lambda>a. map (f a) [0..<m]) [0..<n])"
  have len: "length ?pre = n * m" by (rule length_concat_map_upt)
  show ?case
  proof (cases "a < n")
    case True
    then have "Suc a \<le> n" by simp
    then have "Suc a * m \<le> n * m" by (rule mult_le_mono1)
    with Suc.prems have "a * m + i < n * m" by simp
    with True Suc show ?thesis by (simp add: nth_append len)
  next
    case False
    with Suc.prems have "a = n" by simp
    with Suc.prems show ?thesis by (simp add: nth_append len)
  qed
qed

lemma length_round_candidates:
  "length (round_candidates vSize sp heap result w) =
     Suc (length result) * length (orientation_indices (heap ! w))"
  unfolding round_candidates_def by (rule length_concat_map_upt)

lemma nth_round_candidates:
  "ins \<le> length result \<Longrightarrow> i < length (orientation_indices (heap ! w)) \<Longrightarrow>
   round_candidates vSize sp heap result w ! (ins * length (orientation_indices (heap ! w)) + i)
     = (insertion_cost vSize sp heap result w ins i, ins, i)"
  unfolding round_candidates_def by (rule nth_concat_map_upt) simp_all

lemma round_candidates_index:
  assumes "k < length (round_candidates vSize sp heap result w)"
  shows "\<exists>ins i. ins \<le> length result \<and> i < length (orientation_indices (heap ! w))
           \<and> k = ins * length (orientation_indices (heap ! w)) + i"
proof -
  let ?m = "length (orientation_indices (heap ! w))"
  from assms have k: "k < Suc (length result) * ?m" by (simp add: length_round_candidates)
  then have m: "0 < ?m" by (cases "?m = 0") simp_all
  have "k div ?m < Suc (length result)"
    using k m by (simp add: less_mult_imp_div_less)
  moreover have "k mod ?m < ?m" using m by simp
  moreover have "k = (k div ?m) * ?m + k mod ?m" by simp
  ultimately show ?thesis by (metis less_Suc_eq_le)
qed

lemma insert_waypoint_inserted:
  "best_orientation b = Some i \<Longrightarrow> best_insert b = Some ins \<Longrightarrow>
   insert_waypoint st w b = Inr (inserted st w ins i)"
  by (simp add: insert_waypoint_def inserted_def Let_def)

lemma insert_waypoint_unassigned:
  "best_orientation b = None \<Longrightarrow> insert_waypoint st w b = Inl UninitialisedRead"
  by (simp add: insert_waypoint_def)

lemma chose_round:
  assumes "chose (round_candidates vSize sp heap result w) b k"
  shows "\<exists>ins i. ins \<le> length result \<and> i < length (orientation_indices (heap ! w))
           \<and> best_insert b = Some ins \<and> best_orientation b = Some i
           \<and> best_distance b = insertion_cost vSize sp heap result w ins i
           \<and> k = ins * length (orientation_indices (heap ! w)) + i"
proof -
  let ?cs = "round_candidates vSize sp heap result w"
  let ?m = "length (orientation_indices (heap ! w))"
  from assms have k: "k < length ?cs"
    and ck: "?cs ! k = (best_distance b, the (best_insert b), the (best_orientation b))"
    and some: "best_insert b \<noteq> None" "best_orientation b \<noteq> None"
    by (simp_all add: chose_def)
  from round_candidates_index [OF k] obtain ins i
    where ins: "ins \<le> length result" and i: "i < ?m" and keq: "k = ins * ?m + i" by blast
  have "?cs ! k = (insertion_cost vSize sp heap result w ins i, ins, i)"
    unfolding keq using ins i by (rule nth_round_candidates)
  with ck have "best_distance b = insertion_cost vSize sp heap result w ins i"
    and "the (best_insert b) = ins" and "the (best_orientation b) = i"
    by auto
  with some have "best_insert b = Some ins \<and> best_orientation b = Some i
      \<and> best_distance b = insertion_cost vSize sp heap result w ins i"
    by auto
  with ins i keq show ?thesis by blast
qed

lemma find_best_insertion_chooses:
  assumes ne: "result \<noteq> []" and ok: "\<forall>p\<in>set result. placed_ok (heap ! p)"
    and m: "orientation_indices (heap ! w) \<noteq> []"
    and v: "\<forall>p. vSize p \<noteq> INT64_MAX"
  shows "\<exists>k. chose (round_candidates vSize sp heap result w)
               (scan_candidates (round_candidates vSize sp heap result w) sentinel) k"
    and "best_distance (scan_candidates (round_candidates vSize sp heap result w) sentinel)
           <s INT64_MAX"
proof -
  let ?cs = "round_candidates vSize sp heap result w"
  let ?b = "scan_candidates ?cs sentinel"
  let ?m = "length (orientation_indices (heap ! w))"
  let ?L = "length result"
  from m have m0: "0 < ?m" by simp
  from ne obtain prev where L: "?L = Suc prev" by (cases result) simp_all
  have bk: "insertion_cost vSize sp heap result w ?L 0 \<noteq> INT64_MAX"
    using v by (simp add: insertion_cost_def L back_cost_def distance_def)
  have idx: "?L * ?m + 0 < length ?cs"
    using m0 by (simp add: length_round_candidates)
  have "?cs ! (?L * ?m + 0) = (insertion_cost vSize sp heap result w ?L 0, ?L, 0)"
    using m0 by (intro nth_round_candidates) simp_all
  with idx have mem: "(insertion_cost vSize sp heap result w ?L 0, ?L, 0) \<in> set ?cs"
    by (metis nth_mem)
  from scan_first_min [of ?cs sentinel] mem
  have le: "best_distance ?b \<le>s insertion_cost vSize sp heap result w ?L 0"
    by fastforce
  from bk have "insertion_cost vSize sp heap result w ?L 0 <s INT64_MAX"
    by (rule sless_INT64_MAX)
  with le show lt: "best_distance ?b <s INT64_MAX"
    by (simp add: word_sless_alt word_sle_eq)
  then have "\<not> unchanged sentinel ?b"
    by (auto simp: unchanged_def sentinel_def word_sless_alt)
  with scan_first_min [of ?cs sentinel] show "\<exists>k. chose ?cs ?b k" by blast
qed


section \<open>The effect of one round\<close>

lemma waypoints_inserted_length [simp]:
  "length (waypoints (inserted st w ins i)) = length (waypoints st)"
  by (simp add: inserted_def)

lemma waypoints_inserted_other:
  "p \<noteq> w \<Longrightarrow> waypoints (inserted st w ins i) ! p = waypoints st ! p"
  by (simp add: inserted_def)

lemma waypoints_inserted_same:
  "w < length (waypoints st) \<Longrightarrow>
   waypoints (inserted st w ins i) ! w = (waypoints st ! w)\<lparr>best_orientation_index := Some i\<rparr>"
  by (simp add: inserted_def)

lemma orientation_indices_inserted [simp]:
  "orientation_indices (waypoints (inserted st w ins i) ! p) = orientation_indices (waypoints st ! p)"
proof (cases "p = w \<and> w < length (waypoints st)")
  case True
  then show ?thesis by (simp add: inserted_def)
next
  case False
  then show ?thesis by (auto simp: inserted_def list_update_beyond)
qed

lemma element_inserted [simp]:
  "element (waypoints (inserted st w ins i) ! p) = element (waypoints st ! p)"
proof (cases "p = w \<and> w < length (waypoints st)")
  case True
  then show ?thesis by (simp add: inserted_def)
next
  case False
  then show ?thesis by (auto simp: inserted_def list_update_beyond)
qed

lemma path_inserted: "path (inserted st w ins i) = take ins (path st) @ w # drop ins (path st)"
  by (simp add: inserted_def)

lemma set_path_inserted [simp]: "set (path (inserted st w ins i)) = insert w (set (path st))"
proof -
  have "set (take ins (path st)) \<union> set (drop ins (path st)) = set (path st)"
    by (metis append_take_drop_id set_append)
  then show ?thesis by (auto simp: path_inserted)
qed

lemma mset_path_inserted [simp]:
  "mset (path (inserted st w ins i)) = add_mset w (mset (path st))"
proof -
  have "mset (take ins (path st)) + mset (drop ins (path st)) = mset (path st)"
    by (metis append_take_drop_id mset_append)
  then show ?thesis by (simp add: path_inserted)
qed

lemma rounds_inserted [simp]: "rounds (inserted st w ins i) = Suc (rounds st)"
  by (simp add: inserted_def)

lemma subseq_path_inserted: "subseq (path st) (path (inserted st w ins i))"
proof -
  have "subseq (drop ins (path st)) (w # drop ins (path st))"
    by (rule list_emb_Cons) simp
  then have "subseq (take ins (path st) @ drop ins (path st))
               (take ins (path st) @ w # drop ins (path st))"
    by (simp only: subseq_append')
  then show ?thesis by (simp add: path_inserted)
qed

lemma path_inv_inserted:
  assumes inv: "path_inv st" and w: "w < length (waypoints st)" "w \<notin> set (path st)"
    and i: "i < length (orientation_indices (waypoints st ! w))"
  shows "path_inv (inserted st w ins i)"
proof -
  have d: "distinct (path (inserted st w ins i))"
  proof -
    from inv have dp: "distinct (path st)" by (simp add: path_inv_def)
    then have "set (take ins (path st)) \<inter> set (drop ins (path st)) = {}"
      by (rule set_take_disj_set_drop_if_distinct) simp
    moreover have "w \<notin> set (take ins (path st))" "w \<notin> set (drop ins (path st))"
      using w(2) by (auto dest: in_set_takeD in_set_dropD)
    ultimately show ?thesis using dp by (simp add: path_inserted)
  qed
  have ok: "p < length (waypoints st) \<and> placed_ok (waypoints (inserted st w ins i) ! p)"
    if "p \<in> insert w (set (path st))" for p
  proof (cases "p = w")
    case True
    with w i show ?thesis by (simp add: waypoints_inserted_same placed_ok_def)
  next
    case False
    with that inv show ?thesis
      by (auto simp: waypoints_inserted_other path_inv_def)
  qed
  have un: "best_orientation_index (waypoints (inserted st w ins i) ! p) = None"
    if "p < length (waypoints st)" "p \<notin> insert w (set (path st))" for p
    using that inv by (auto simp: waypoints_inserted_other path_inv_def)
  have ne: "path (inserted st w ins i) \<noteq> []" by (simp add: path_inserted)
  show ?thesis
    unfolding path_inv_def using ne d ok un by simp
qed

lemma insert_round_shape:
  assumes "insert_round vSize sp st w = Inr st'"
  shows "\<exists>ins i. st' = inserted st w ins i"
proof -
  from assms obtain b where b: "insert_waypoint st w b = Inr st'"
    by (auto simp: insert_round_def split: sum.splits)
  show ?thesis
  proof (cases "best_orientation b")
    case None
    with b show ?thesis by (simp add: insert_waypoint_unassigned)
  next
    case (Some i)
    show ?thesis
    proof (cases "best_insert b")
      case None
      with b Some show ?thesis by (simp add: insert_waypoint_def Let_def)
    next
      case (Some ins)
      with b \<open>best_orientation b = Some i\<close> have "st' = inserted st w ins i"
        by (simp add: insert_waypoint_inserted)
      then show ?thesis by blast
    qed
  qed
qed

lemma insert_round_ok:
  assumes inv: "path_inv st" and m: "orientation_indices (waypoints st ! w) \<noteq> []"
    and v: "\<forall>p. vSize p \<noteq> INT64_MAX"
  shows "\<exists>ins i. ins \<le> length (path st) \<and> i < length (orientation_indices (waypoints st ! w))
           \<and> insert_round vSize sp st w = Inr (inserted st w ins i)"
proof -
  let ?cs = "round_candidates vSize sp (waypoints st) (path st) w"
  let ?b = "scan_candidates ?cs sentinel"
  from inv have ne: "path st \<noteq> []" and ok: "\<forall>p\<in>set (path st). placed_ok (waypoints st ! p)"
    by (simp_all add: path_inv_def)
  have fb: "find_best_insertion vSize sp (waypoints st) (path st) w = Inr ?b"
    using ne ok by (rule find_best_insertion_scan)
  from find_best_insertion_chooses(1) [OF ne ok m v] obtain k where "chose ?cs ?b k" by blast
  from chose_round [OF this] obtain ins i
    where "ins \<le> length (path st)" "i < length (orientation_indices (waypoints st ! w))"
      and bi: "best_insert ?b = Some ins" and bo: "best_orientation ?b = Some i"
    by blast
  moreover have "insert_round vSize sp st w = Inr (inserted st w ins i)"
    by (simp add: insert_round_def fb insert_waypoint_inserted [OF bo bi])
  ultimately show ?thesis by blast
qed


section \<open>The main loop\<close>

lemma extends_refl: "extends st st []"
  by (simp add: extends_def)

lemma extends_inserted: "extends st (inserted st w ins i) [w]"
  by (simp add: extends_def subseq_path_inserted waypoints_inserted_other)

lemma extends_trans:
  assumes "extends st st1 [w]" and "extends st1 st2 ws"
  shows "extends st st2 (w # ws)"
proof -
  from assms have "subseq (path st) (path st2)"
    unfolding extends_def by (meson subseq_order.trans)
  with assms show ?thesis
    unfolding extends_def by simp
qed

lemma insert_rest_ok:
  assumes v: "\<forall>p. vSize p \<noteq> INT64_MAX"
  shows "path_inv st \<Longrightarrow> distinct (map (\<lambda>k. shuffled ! k) ks) \<Longrightarrow>
         \<forall>k\<in>set ks. shuffled ! k < length (waypoints st) \<and> shuffled ! k \<notin> set (path st)
            \<and> orientation_indices (waypoints st ! (shuffled ! k)) \<noteq> [] \<Longrightarrow>
         \<exists>st'. insert_rest vSize sp shuffled ks st = Inr st' \<and> path_inv st'
            \<and> extends st st' (map (\<lambda>k. shuffled ! k) ks)"
proof (induction ks arbitrary: st)
  case Nil
  then show ?case by (simp add: extends_refl)
next
  case (Cons k ks)
  let ?w = "shuffled ! k"
  from Cons.prems have w: "?w < length (waypoints st)" "?w \<notin> set (path st)"
    and m: "orientation_indices (waypoints st ! ?w) \<noteq> []" by simp_all
  from insert_round_ok [OF Cons.prems(1) m v, of sp] obtain ins i
    where i: "i < length (orientation_indices (waypoints st ! ?w))"
      and r: "insert_round vSize sp st ?w = Inr (inserted st ?w ins i)" by blast
  let ?st1 = "inserted st ?w ins i"
  have inv1: "path_inv ?st1" using Cons.prems(1) w i by (rule path_inv_inserted)
  have d1: "distinct (map (\<lambda>k. shuffled ! k) ks)" using Cons.prems(2) by simp
  have rest: "\<forall>j\<in>set ks. shuffled ! j < length (waypoints ?st1) \<and> shuffled ! j \<notin> set (path ?st1)
            \<and> orientation_indices (waypoints ?st1 ! (shuffled ! j)) \<noteq> []"
  proof
    fix j assume j: "j \<in> set ks"
    with Cons.prems(2) have "shuffled ! j \<noteq> ?w" by (auto simp: image_iff)
    with j Cons.prems(3) show "shuffled ! j < length (waypoints ?st1) \<and> shuffled ! j \<notin> set (path ?st1)
            \<and> orientation_indices (waypoints ?st1 ! (shuffled ! j)) \<noteq> []"
      by simp
  qed
  from Cons.IH [OF inv1 d1 rest] obtain st'
    where run: "insert_rest vSize sp shuffled ks ?st1 = Inr st'" and inv': "path_inv st'"
      and ext: "extends ?st1 st' (map (\<lambda>k. shuffled ! k) ks)" by blast
  have "insert_rest vSize sp shuffled (k # ks) st = Inr st'"
    by (simp add: r run)
  moreover have "extends st st' (map (\<lambda>k. shuffled ! k) (k # ks))"
    using extends_trans [OF extends_inserted ext] by simp
  ultimately show ?case using inv' by blast
qed

lemma insert_rest_append:
  "insert_rest vSize sp shuffled (ks @ js) st =
     (case insert_rest vSize sp shuffled ks st of
        Inl e \<Rightarrow> Inl e
      | Inr st' \<Rightarrow> insert_rest vSize sp shuffled js st')"
  by (induction ks arbitrary: st) (simp_all split: sum.splits)

section \<open>The seeding\<close>

lemma seed_orientation_loop_scan:
  "\<forall>i\<in>set os. i < length (orientation_indices w) \<Longrightarrow>
   seed_orientation_loop vSize sp w os (best_distance b, best_orientation b) =
     Inr (best_distance (scan_candidates (map (\<lambda>i. (distance vSize sp (entry_point w i), 0, i)) os) b),
          best_orientation (scan_candidates (map (\<lambda>i. (distance vSize sp (entry_point w i), 0, i)) os) b))"
proof (induction os arbitrary: b)
  case Nil
  show ?case by simp
next
  case (Cons i os)
  then have i: "i < length (orientation_indices w)" and os: "\<forall>i\<in>set os. i < length (orientation_indices w)"
    by simp_all
  let ?d = "distance vSize sp (entry_point w i)"
  let ?b1 = "update_best ?d 0 i b"
  have "seed_orientation_loop vSize sp w (i # os) (best_distance b, best_orientation b) =
        seed_orientation_loop vSize sp w os (best_distance ?b1, best_orientation ?b1)"
    using i by (simp add: orientation_at_def distance_def entry_point_def update_best_def Let_def)
  with Cons.IH [OF os, of ?b1] show ?case by simp
qed

lemma seed_choice:
  assumes m: "orientation_indices w \<noteq> []" and v: "\<forall>p. vSize p \<noteq> INT64_MAX"
  shows "\<exists>i<length (orientation_indices w).
           seed_orientation_loop vSize sp w [0..<length (orientation_indices w)] (INT64_MAX, None)
             = Inr (distance vSize sp (entry_point w i), Some i)
           \<and> (\<forall>j<length (orientation_indices w).
                 distance vSize sp (entry_point w i) \<le>s distance vSize sp (entry_point w j))
           \<and> (\<forall>j<i. distance vSize sp (entry_point w i) <s distance vSize sp (entry_point w j))"
proof -
  let ?m = "length (orientation_indices w)"
  let ?f = "\<lambda>i. (distance vSize sp (entry_point w i), 0::nat, i)"
  let ?cs = "map ?f [0..<?m]"
  let ?b = "scan_candidates ?cs sentinel"
  from m have m0: "0 < ?m" by simp
  have run: "seed_orientation_loop vSize sp w [0..<?m] (INT64_MAX, None)
             = Inr (best_distance ?b, best_orientation ?b)"
    using seed_orientation_loop_scan [of "[0..<?m]" w vSize sp sentinel]
    by (simp add: sentinel_def)
  have le: "best_distance ?b \<le>s distance vSize sp (entry_point w j)" if "j < ?m" for j
  proof -
    from that have "?f j \<in> set ?cs" by simp
    with scan_first_min [of ?cs sentinel] show ?thesis by fastforce
  qed
  have "distance vSize sp (entry_point w 0) <s INT64_MAX"
    using v by (intro sless_INT64_MAX) (simp add: distance_def)
  with le [OF m0] have "best_distance ?b <s INT64_MAX"
    by (simp add: word_sless_alt word_sle_eq)
  then have "\<not> unchanged sentinel ?b"
    by (auto simp: unchanged_def sentinel_def word_sless_alt)
  with scan_first_min [of ?cs sentinel] obtain k where "chose ?cs ?b k" by blast
  then have kl: "k < length ?cs"
    and ck: "?cs ! k = (best_distance ?b, the (best_insert ?b), the (best_orientation ?b))"
    and some: "best_orientation ?b \<noteq> None"
    and first: "\<forall>j<k. best_distance ?b <s fst (?cs ! j)"
    unfolding chose_def by blast+
  from kl have k: "k < ?m" by simp
  from k ck have "best_distance ?b = distance vSize sp (entry_point w k)"
    and "the (best_orientation ?b) = k" by auto
  with some have bd: "best_distance ?b = distance vSize sp (entry_point w k)"
    and bo: "best_orientation ?b = Some k" by auto
  have "\<forall>j<k. distance vSize sp (entry_point w k) <s distance vSize sp (entry_point w j)"
    using first k by (simp add: bd)
  with k run le show ?thesis unfolding bd bo by blast
qed


lemma seed_path_None: "seed_path vSize None heap shuffled = Inr (seeded heap (shuffled ! 0) 0)"
  by (simp add: seed_path_def seeded_def)

lemma seed_path_Some:
  assumes m: "orientation_indices (heap ! (shuffled ! 0)) \<noteq> []" and v: "\<forall>p. vSize p \<noteq> INT64_MAX"
  shows "\<exists>i<length (orientation_indices (heap ! (shuffled ! 0))).
           seed_path vSize (Some sp) heap shuffled = Inr (seeded heap (shuffled ! 0) i)
           \<and> (\<forall>j<length (orientation_indices (heap ! (shuffled ! 0))).
                 distance vSize sp (entry_point (heap ! (shuffled ! 0)) i)
                 \<le>s distance vSize sp (entry_point (heap ! (shuffled ! 0)) j))
           \<and> (\<forall>j<i. distance vSize sp (entry_point (heap ! (shuffled ! 0)) i)
                 <s distance vSize sp (entry_point (heap ! (shuffled ! 0)) j))"
proof -
  from seed_choice [OF m v, of sp] obtain i
    where i: "i < length (orientation_indices (heap ! (shuffled ! 0)))"
      and run: "seed_orientation_loop vSize sp (heap ! (shuffled ! 0))
                  [0..<length (orientation_indices (heap ! (shuffled ! 0)))] (INT64_MAX, None)
                = Inr (distance vSize sp (entry_point (heap ! (shuffled ! 0)) i), Some i)"
      and le: "\<forall>j<length (orientation_indices (heap ! (shuffled ! 0))).
                 distance vSize sp (entry_point (heap ! (shuffled ! 0)) i)
                 \<le>s distance vSize sp (entry_point (heap ! (shuffled ! 0)) j)"
      and lt: "\<forall>j<i. distance vSize sp (entry_point (heap ! (shuffled ! 0)) i)
                 <s distance vSize sp (entry_point (heap ! (shuffled ! 0)) j)"
    by blast
  have "seed_path vSize (Some sp) heap shuffled = Inr (seeded heap (shuffled ! 0) i)"
    by (simp add: seed_path_def run seeded_def)
  with i le lt show ?thesis by blast
qed

lemma seed_path_ok:
  assumes m: "orientation_indices (heap ! (shuffled ! 0)) \<noteq> []" and v: "\<forall>p. vSize p \<noteq> INT64_MAX"
  shows "\<exists>i<length (orientation_indices (heap ! (shuffled ! 0))).
           seed_path vSize starting_point heap shuffled = Inr (seeded heap (shuffled ! 0) i)"
proof (cases starting_point)
  case None
  with m show ?thesis by (auto simp: seed_path_None)
next
  case (Some sp)
  with seed_path_Some [OF m v, of sp] show ?thesis by blast
qed

lemma path_inv_seeded:
  assumes "w < length heap" and "i < length (orientation_indices (heap ! w))"
    and "\<forall>p<length heap. best_orientation_index (heap ! p) = None"
  shows "path_inv (seeded heap w i)"
  using assms by (auto simp: path_inv_def seeded_def placed_ok_def nth_list_update)

lemma seeded_fields:
  "length (waypoints (seeded heap w i)) = length heap"
  "path (seeded heap w i) = [w]"
  "rounds (seeded heap w i) = 0"
  "element (waypoints (seeded heap w i) ! p) = element (heap ! p)"
  "orientation_indices (waypoints (seeded heap w i) ! p) = orientation_indices (heap ! p)"
proof -
  show "element (waypoints (seeded heap w i) ! p) = element (heap ! p)"
    by (cases "w < length heap") (auto simp: seeded_def nth_list_update list_update_beyond)
  show "orientation_indices (waypoints (seeded heap w i) ! p) = orientation_indices (heap ! p)"
    by (cases "w < length heap") (auto simp: seeded_def nth_list_update list_update_beyond)
qed (simp_all add: seeded_def)

lemma seeded_other: "p \<noteq> w \<Longrightarrow> waypoints (seeded heap w i) ! p = heap ! p"
  by (simp add: seeded_def)

lemma seeded_chosen:
  "w < length heap \<Longrightarrow> best_orientation_index (waypoints (seeded heap w i) ! w) = Some i"
  by (simp add: seeded_def)

section \<open>The waypoints, the shuffle and the result vectors\<close>

lemma fillWaypoints_fields:
  "length (fillWaypoints get_orientations elements) = length elements"
  "p < length elements \<Longrightarrow> element (fillWaypoints get_orientations elements ! p) = elements ! p"
  "p < length elements \<Longrightarrow>
     orientation_indices (fillWaypoints get_orientations elements ! p) = get_orientations (elements ! p)"
  "p < length elements \<Longrightarrow>
     best_orientation_index (fillWaypoints get_orientations elements ! p) = None"
  by (simp_all add: fillWaypoints_def)

lemma shuffle_facts:
  assumes "mset (shuffle_engine rng_seed n) = mset [0..<n]"
  shows "std_shuffle shuffle_engine rng_seed [0..<n] = shuffle_engine rng_seed n"
    and "length (shuffle_engine rng_seed n) = n"
    and "distinct (shuffle_engine rng_seed n)"
    and "set (shuffle_engine rng_seed n) = {0..<n}"
proof -
  from assms show s: "set (shuffle_engine rng_seed n) = {0..<n}"
    by (metis mset_eq_setD set_upt)
  from assms show "length (shuffle_engine rng_seed n) = n"
    by (metis mset_eq_length length_upt diff_zero)
  from assms show "distinct (shuffle_engine rng_seed n)"
    by (metis mset_eq_imp_distinct_iff distinct_upt)
  have "map (\<lambda>k. [0..<n] ! k) (shuffle_engine rng_seed n) = map (\<lambda>k. k) (shuffle_engine rng_seed n)"
    using s by (intro map_cong) auto
  then show "std_shuffle shuffle_engine rng_seed [0..<n] = shuffle_engine rng_seed n"
    by (simp add: std_shuffle_def)
qed

lemma linearise_ok:
  "\<forall>p\<in>set ps. placed_ok (heap ! p) \<Longrightarrow>
   linearise heap ps = Inr (map (\<lambda>p. element (heap ! p)) ps,
                            map (\<lambda>p. the (best_orientation_index (heap ! p))) ps)"
  by (induction ps) (auto simp: placed_ok_def split: option.splits)


section \<open>The run of findPath\<close>

lemma map_nth_upt_take: "k \<le> length xs \<Longrightarrow> map (\<lambda>j. xs ! j) [0..<k] = take k xs"
  by (simp add: list_eq_iff_nth_eq)

lemma state_after_ok:
  assumes go: "\<forall>e\<in>set elements. get_orientations e \<noteq> []"
    and v: "\<forall>p. vSize p \<noteq> INT64_MAX"
    and sh: "mset (shuffle_engine rng_seed (length elements)) = mset [0..<length elements]"
    and k: "k < length elements"
  shows "\<exists>i st. i < length (get_orientations (elements ! (shuffle_engine rng_seed (length elements) ! 0)))
           \<and> seed_path vSize sp (fillWaypoints get_orientations elements)
                 (shuffle_engine rng_seed (length elements))
               = Inr (seeded (fillWaypoints get_orientations elements)
                        (shuffle_engine rng_seed (length elements) ! 0) i)
           \<and> state_after vSize shuffle_engine get_orientations elements sp k = Inr st
           \<and> path_inv st
           \<and> extends (seeded (fillWaypoints get_orientations elements)
                        (shuffle_engine rng_seed (length elements) ! 0) i) st
                 (map (\<lambda>j. shuffle_engine rng_seed (length elements) ! j) [1..<Suc k])"
proof -
  let ?n = "length elements"
  let ?heap = "fillWaypoints get_orientations elements"
  let ?sh = "shuffle_engine rng_seed ?n"
  note sf = shuffle_facts [of shuffle_engine "length elements", OF sh]
  from k have n0: "0 < ?n" by (cases elements) simp_all
  have inr: "?sh ! j < ?n" if "j < ?n" for j
  proof -
    from that have "?sh ! j \<in> set ?sh" by (simp add: sf(2))
    then show ?thesis by (simp add: sf(4))
  qed
  have ors: "orientation_indices (?heap ! (?sh ! j)) = get_orientations (elements ! (?sh ! j))"
    if "j < ?n" for j
    using inr [OF that] by (simp add: fillWaypoints_fields)
  have nonempty: "get_orientations (elements ! (?sh ! j)) \<noteq> []" if "j < ?n" for j
    using go inr [OF that] by simp
  have m: "orientation_indices (?heap ! (?sh ! 0)) \<noteq> []"
    using ors [OF n0] nonempty [OF n0] by simp
  from seed_path_ok [OF m v, of sp] obtain i
    where i: "i < length (orientation_indices (?heap ! (?sh ! 0)))"
      and seed: "seed_path vSize sp ?heap ?sh = Inr (seeded ?heap (?sh ! 0) i)" by blast
  let ?st0 = "seeded ?heap (?sh ! 0) i"
  have inv0: "path_inv ?st0"
    using inr [OF n0] i by (intro path_inv_seeded) (simp_all add: fillWaypoints_fields)
  have inj: "?sh ! j \<noteq> ?sh ! j'" if "j < ?n" "j' < ?n" "j \<noteq> j'" for j j'
    using that sf(2,3) by (simp add: nth_eq_iff_index_eq)
  have "inj_on (\<lambda>j. ?sh ! j) (set [1..<Suc k])"
  proof (rule inj_onI)
    fix x y assume "x \<in> set [1..<Suc k]" "y \<in> set [1..<Suc k]" and eq: "?sh ! x = ?sh ! y"
    with k have "x < ?n" "y < ?n" by (simp_all del: upt_Suc)
    with inj [of x y] eq show "x = y" by blast
  qed
  then have d: "distinct (map (\<lambda>j. ?sh ! j) [1..<Suc k])"
    by (simp add: distinct_map del: upt_Suc)
  have pre: "\<forall>j\<in>set [1..<Suc k]. ?sh ! j < length (waypoints ?st0) \<and> ?sh ! j \<notin> set (path ?st0)
            \<and> orientation_indices (waypoints ?st0 ! (?sh ! j)) \<noteq> []"
  proof
    fix j assume "j \<in> set [1..<Suc k]"
    with k have j: "j < ?n" "j \<noteq> 0" by (simp_all del: upt_Suc)
    from inj [OF j(1) n0 j(2)] inr [OF j(1)] ors [OF j(1)] nonempty [OF j(1)]
    show "?sh ! j < length (waypoints ?st0) \<and> ?sh ! j \<notin> set (path ?st0)
            \<and> orientation_indices (waypoints ?st0 ! (?sh ! j)) \<noteq> []"
      by (simp add: seeded_fields fillWaypoints_fields)
  qed
  from insert_rest_ok [OF v inv0 d pre, of sp] obtain st
    where run: "insert_rest vSize sp ?sh [1..<Suc k] ?st0 = Inr st" and inv: "path_inv st"
      and ext: "extends ?st0 st (map (\<lambda>j. ?sh ! j) [1..<Suc k])" by blast
  have "state_after vSize shuffle_engine get_orientations elements sp k = Inr st"
    unfolding state_after_def Let_def fillWaypoints_fields(1) sf(1) seed
    using run by (simp del: upt_Suc)
  moreover from i have "i < length (get_orientations (elements ! (?sh ! 0)))"
    by (simp add: ors [OF n0])
  ultimately show ?thesis using seed inv ext by blast
qed


lemma state_after_facts:
  assumes go: "\<forall>e\<in>set elements. get_orientations e \<noteq> []"
    and v: "\<forall>p. vSize p \<noteq> INT64_MAX"
    and sh: "mset (shuffle_engine rng_seed (length elements)) = mset [0..<length elements]"
    and k: "k < length elements"
  shows "\<exists>st. state_after vSize shuffle_engine get_orientations elements sp k = Inr st
           \<and> path_inv st
           \<and> length (waypoints st) = length elements
           \<and> (\<forall>p<length elements. element (waypoints st ! p) = elements ! p
                 \<and> orientation_indices (waypoints st ! p) = get_orientations (elements ! p))
           \<and> mset (path st) = mset (take (Suc k) (shuffle_engine rng_seed (length elements)))
           \<and> rounds st = k"
proof -
  let ?n = "length elements"
  let ?heap = "fillWaypoints get_orientations elements"
  let ?sh = "shuffle_engine rng_seed ?n"
  note sf = shuffle_facts [of shuffle_engine "length elements", OF sh]
  from state_after_ok [where elements = elements and get_orientations = get_orientations
      and vSize = vSize and shuffle_engine = shuffle_engine and k = k and sp = sp, OF go v sh k]
  obtain i st
    where run: "state_after vSize shuffle_engine get_orientations elements sp k = Inr st"
      and inv: "path_inv st"
      and ext: "extends (seeded ?heap (?sh ! 0) i) st (map (\<lambda>j. ?sh ! j) [1..<Suc k])"
    by blast
  from ext have len: "length (waypoints st) = ?n"
    by (simp add: extends_def seeded_fields fillWaypoints_fields)
  from ext have data: "element (waypoints st ! p) = elements ! p
        \<and> orientation_indices (waypoints st ! p) = get_orientations (elements ! p)"
    if "p < ?n" for p
    using that by (simp add: extends_def seeded_fields fillWaypoints_fields)
  have "[0..<Suc k] = 0 # [1..<Suc k]" by (simp add: upt_conv_Cons del: upt_Suc)
  then have "map (\<lambda>j. ?sh ! j) [0..<Suc k] = ?sh ! 0 # map (\<lambda>j. ?sh ! j) [1..<Suc k]"
    by (simp del: upt_Suc)
  moreover have "map (\<lambda>j. ?sh ! j) [0..<Suc k] = take (Suc k) ?sh"
    using k by (intro map_nth_upt_take) (simp add: sf(2))
  ultimately have "mset (take (Suc k) ?sh) = add_mset (?sh ! 0) (mset (map (\<lambda>j. ?sh ! j) [1..<Suc k]))"
    by (metis mset.simps(2))
  with ext have ms: "mset (path st) = mset (take (Suc k) ?sh)"
    by (simp add: extends_def seeded_fields del: upt_Suc)
  from ext have r: "rounds st = k"
    by (simp add: extends_def seeded_fields del: upt_Suc)
  from run inv len data ms r show ?thesis by blast
qed

lemma findPath_state_after:
  assumes ne: "elements \<noteq> []"
    and sh: "mset (shuffle_engine rng_seed (length elements)) = mset [0..<length elements]"
  shows "findPath vSize shuffle_engine get_orientations elements element_orientations sp =
           (case state_after vSize shuffle_engine get_orientations elements sp (length elements - 1) of
              Inl e \<Rightarrow> Inl e
            | Inr st \<Rightarrow> linearise (waypoints st) (path st))"
proof -
  note sf = shuffle_facts [of shuffle_engine "length elements", OF sh]
  from ne have "Suc (length elements - 1) = length elements" by (cases elements) simp_all
  then show ?thesis
    unfolding findPath_def state_after_def Let_def fillWaypoints_fields(1) sf(1) sf(2)
    using ne by (simp split: sum.splits)
qed

lemma findPath_run:
  assumes ne: "elements \<noteq> []"
    and go: "\<forall>e\<in>set elements. get_orientations e \<noteq> []"
    and v: "\<forall>p. vSize p \<noteq> INT64_MAX"
    and sh: "mset (shuffle_engine rng_seed (length elements)) = mset [0..<length elements]"
  shows "\<exists>st. state_after vSize shuffle_engine get_orientations elements sp (length elements - 1) = Inr st
           \<and> path_inv st
           \<and> length (waypoints st) = length elements
           \<and> (\<forall>p<length elements. orientation_indices (waypoints st ! p) = get_orientations (elements ! p))
           \<and> mset (path st) = mset [0..<length elements]
           \<and> rounds st = length elements - 1
           \<and> findPath vSize shuffle_engine get_orientations elements element_orientations sp =
               Inr (map (\<lambda>p. elements ! p) (path st),
                    map (\<lambda>p. the (best_orientation_index (waypoints st ! p))) (path st))"
proof -
  let ?n = "length elements"
  note sf = shuffle_facts [of shuffle_engine "length elements", OF sh]
  from ne have k: "?n - 1 < ?n" "Suc (?n - 1) = ?n" by (cases elements; simp)+
  from state_after_facts [where elements = elements and get_orientations = get_orientations
      and vSize = vSize and shuffle_engine = shuffle_engine and k = "length elements - 1"
      and sp = sp, OF go v sh k(1)]
  obtain st
    where run: "state_after vSize shuffle_engine get_orientations elements sp (?n - 1) = Inr st"
      and inv: "path_inv st" and len: "length (waypoints st) = ?n"
      and data: "\<forall>p<?n. element (waypoints st ! p) = elements ! p
                 \<and> orientation_indices (waypoints st ! p) = get_orientations (elements ! p)"
      and ms: "mset (path st) = mset (take (Suc (?n - 1)) (shuffle_engine rng_seed ?n))"
      and r: "rounds st = ?n - 1"
    by blast
  from ms have ms': "mset (path st) = mset [0..<?n]"
    unfolding k(2) using sh by (simp add: sf(2))
  from inv have ok: "\<forall>p\<in>set (path st). placed_ok (waypoints st ! p)" and
    inr: "\<forall>p\<in>set (path st). p < ?n"
    by (simp_all add: path_inv_def len)
  have em: "map (\<lambda>p. element (waypoints st ! p)) (path st) = map (\<lambda>p. elements ! p) (path st)"
    using inr data by (intro map_cong) auto
  have "findPath vSize shuffle_engine get_orientations elements element_orientations sp =
          linearise (waypoints st) (path st)"
    unfolding findPath_state_after [where elements = elements
          and shuffle_engine = shuffle_engine, OF ne sh] run by simp
  also have "\<dots> = Inr (map (\<lambda>p. element (waypoints st ! p)) (path st),
                    map (\<lambda>p. the (best_orientation_index (waypoints st ! p))) (path st))"
    by (rule linearise_ok [OF ok])
  finally have "findPath vSize shuffle_engine get_orientations elements element_orientations sp =
               Inr (map (\<lambda>p. elements ! p) (path st),
                    map (\<lambda>p. the (best_orientation_index (waypoints st ! p))) (path st))"
    unfolding em .
  with run inv len data ms' r show ?thesis by blast
qed


lemma state_after_split:
  assumes "j \<le> k"
  shows "state_after vSize shuffle_engine get_orientations elements sp k =
           (case state_after vSize shuffle_engine get_orientations elements sp j of
              Inl e \<Rightarrow> Inl e
            | Inr st \<Rightarrow>
                insert_rest vSize sp
                  (std_shuffle shuffle_engine rng_seed
                     [0..<length (fillWaypoints get_orientations elements)])
                  [Suc j..<Suc k] st)"
proof -
  from assms obtain d where k: "k = j + d" by (auto simp: le_iff_add)
  have "[1..<Suc j + d] = [1..<Suc j] @ [Suc j..<Suc j + d]"
    by (rule upt_add_eq_append) simp
  then have "[1..<Suc k] = [1..<Suc j] @ [Suc j..<Suc k]"
    by (simp add: k)
  then show ?thesis
    unfolding state_after_def Let_def
    by (simp add: insert_rest_append split: sum.splits del: upt_Suc)
qed


section \<open>The rounds of findPath\<close>

lemma round_optimal:
  assumes inv: "path_inv st" and m: "orientation_indices (waypoints st ! w) \<noteq> []"
    and v: "\<forall>p. vSize p \<noteq> INT64_MAX"
  shows "\<exists>b ins i.
           find_best_insertion vSize sp (waypoints st) (path st) w = Inr b
           \<and> best_insert b = Some ins \<and> best_orientation b = Some i
           \<and> ins \<le> length (path st) \<and> i < length (orientation_indices (waypoints st ! w))
           \<and> best_distance b = insertion_cost vSize sp (waypoints st) (path st) w ins i
           \<and> best_distance b <s INT64_MAX
           \<and> inspected b = Suc (length (path st)) * length (orientation_indices (waypoints st ! w))
           \<and> (\<forall>ins' i'. ins' \<le> length (path st) \<longrightarrow>
                 i' < length (orientation_indices (waypoints st ! w)) \<longrightarrow>
                 best_distance b \<le>s insertion_cost vSize sp (waypoints st) (path st) w ins' i')
           \<and> (\<forall>ins' i'. ins' \<le> length (path st) \<longrightarrow>
                 i' < length (orientation_indices (waypoints st ! w)) \<longrightarrow>
                 (ins' < ins \<or> (ins' = ins \<and> i' < i)) \<longrightarrow>
                 best_distance b <s insertion_cost vSize sp (waypoints st) (path st) w ins' i')
           \<and> insert_round vSize sp st w = Inr (inserted st w ins i)"
proof -
  let ?m = "length (orientation_indices (waypoints st ! w))"
  let ?L = "length (path st)"
  let ?cost = "insertion_cost vSize sp (waypoints st) (path st) w"
  let ?cs = "round_candidates vSize sp (waypoints st) (path st) w"
  let ?b = "scan_candidates ?cs sentinel"
  from inv have ne: "path st \<noteq> []" and ok: "\<forall>p\<in>set (path st). placed_ok (waypoints st ! p)"
    by (simp_all add: path_inv_def)
  have fb: "find_best_insertion vSize sp (waypoints st) (path st) w = Inr ?b"
    using ne ok by (rule find_best_insertion_scan)
  have lt: "best_distance ?b <s INT64_MAX"
    using ne ok m v by (rule find_best_insertion_chooses(2))
  from find_best_insertion_chooses(1) [OF ne ok m v] obtain k where ch: "chose ?cs ?b k" by blast
  from chose_round [OF ch] obtain ins i
    where ins: "ins \<le> ?L" and i: "i < ?m"
      and bi: "best_insert ?b = Some ins" and bo: "best_orientation ?b = Some i"
      and bd: "best_distance ?b = ?cost ins i" and k: "k = ins * ?m + i"
    by blast
  have nth: "?cs ! (ins' * ?m + i') = (?cost ins' i', ins', i')" if "ins' \<le> ?L" "i' < ?m" for ins' i'
    using that by (rule nth_round_candidates)
  have idx: "ins' * ?m + i' < length ?cs" if "ins' \<le> ?L" "i' < ?m" for ins' i'
  proof -
    have "ins' * ?m + i' < Suc ins' * ?m" using that(2) by simp
    also have "\<dots> \<le> Suc ?L * ?m" using that(1) by (intro mult_le_mono1) simp
    finally show ?thesis by (simp only: length_round_candidates)
  qed
  have le: "best_distance ?b \<le>s ?cost ins' i'" if "ins' \<le> ?L" "i' < ?m" for ins' i'
  proof -
    from nth [OF that] idx [OF that] have "(?cost ins' i', ins', i') \<in> set ?cs"
      by (metis nth_mem)
    with scan_first_min [of ?cs sentinel] show ?thesis by fastforce
  qed
  have first: "best_distance ?b <s ?cost ins' i'"
    if "ins' \<le> ?L" "i' < ?m" "ins' < ins \<or> (ins' = ins \<and> i' < i)" for ins' i'
  proof -
    have "ins' * ?m + i' < k"
    proof (cases "ins' < ins")
      case True
      have "ins' * ?m + i' < Suc ins' * ?m" using that(2) by simp
      also have "\<dots> \<le> ins * ?m" using True by (intro mult_le_mono1) simp
      also have "\<dots> \<le> k" by (simp add: k)
      finally show ?thesis .
    next
      case False
      with that(3) show ?thesis by (simp add: k)
    qed
    with ch have "best_distance ?b <s fst (?cs ! (ins' * ?m + i'))"
      by (simp add: chose_def)
    then show ?thesis by (simp add: nth [OF that(1,2)])
  qed
  have insp: "inspected ?b = Suc ?L * ?m"
    by (simp add: inspected_scan length_round_candidates sentinel_def)
  have ir: "insert_round vSize sp st w = Inr (inserted st w ins i)"
    by (simp add: insert_round_def fb insert_waypoint_inserted [OF bo bi])
  from fb bi bo ins i bd lt insp le first ir show ?thesis by blast
qed

lemma round_of_findPath:
  assumes go: "\<forall>e\<in>set elements. get_orientations e \<noteq> []"
    and v: "\<forall>p. vSize p \<noteq> INT64_MAX"
    and sh: "mset (shuffle_engine rng_seed (length elements)) = mset [0..<length elements]"
    and k: "0 < k" "k < length elements"
  shows "\<exists>st. state_after vSize shuffle_engine get_orientations elements sp (k - 1) = Inr st
           \<and> path_inv st
           \<and> length (path st) = k
           \<and> rounds st = k - 1
           \<and> orientation_indices (waypoints st ! (shuffle_engine rng_seed (length elements) ! k))
               = get_orientations (elements ! (shuffle_engine rng_seed (length elements) ! k))
           \<and> orientation_indices (waypoints st ! (shuffle_engine rng_seed (length elements) ! k)) \<noteq> []
           \<and> state_after vSize shuffle_engine get_orientations elements sp k
               = insert_round vSize sp st (shuffle_engine rng_seed (length elements) ! k)"
proof -
  let ?n = "length elements"
  let ?sh = "shuffle_engine rng_seed ?n"
  note sf = shuffle_facts [of shuffle_engine "length elements", OF sh]
  from k have k1: "k - 1 < ?n" "Suc (k - 1) = k" "k - 1 \<le> k" by simp_all
  from state_after_facts [where elements = elements and get_orientations = get_orientations
      and vSize = vSize and shuffle_engine = shuffle_engine and k = "k - 1"
      and sp = sp, OF go v sh k1(1)]
  obtain st
    where run: "state_after vSize shuffle_engine get_orientations elements sp (k - 1) = Inr st"
      and inv: "path_inv st" and len: "length (waypoints st) = ?n"
      and data: "\<forall>p<?n. element (waypoints st ! p) = elements ! p
                 \<and> orientation_indices (waypoints st ! p) = get_orientations (elements ! p)"
      and ms: "mset (path st) = mset (take (Suc (k - 1)) ?sh)"
      and r: "rounds st = k - 1"
    by blast
  from ms have "length (path st) = length (take k ?sh)"
    unfolding k1(2) by (rule mset_eq_length)
  with k have lp: "length (path st) = k" by (simp add: sf(2))
  from k have "?sh ! k \<in> set ?sh" by (simp add: sf(2))
  then have w: "?sh ! k < ?n" by (simp add: sf(4))
  with data have o: "orientation_indices (waypoints st ! (?sh ! k)) = get_orientations (elements ! (?sh ! k))"
    by simp
  from w go have m: "orientation_indices (waypoints st ! (?sh ! k)) \<noteq> []"
    unfolding o by simp
  have "state_after vSize shuffle_engine get_orientations elements sp k
        = (case state_after vSize shuffle_engine get_orientations elements sp (k - 1) of
              Inl e \<Rightarrow> Inl e
            | Inr st \<Rightarrow>
                insert_rest vSize sp
                  (std_shuffle shuffle_engine rng_seed
                     [0..<length (fillWaypoints get_orientations elements)])
                  [Suc (k - 1)..<Suc k] st)"
    by (rule state_after_split [OF k1(3)])
  also have "\<dots> = insert_rest vSize sp ?sh [k..<Suc k] st"
    unfolding run k1(2) fillWaypoints_fields(1) sf(1) by simp
  also have "\<dots> = insert_round vSize sp st (?sh ! k)"
    by (simp split: sum.splits)
  finally show ?thesis using run inv lp r o m by blast
qed


lemma try_positions_no_orientations:
  "orientation_indices (heap ! w) = [] \<Longrightarrow> try_positions vSize heap w result ps b = Inr b"
  by (induction ps arbitrary: b) (simp_all add: tryInsertLast_def tryInsertMiddle_def Let_def)

lemma insert_round_no_orientations:
  assumes "orientation_indices (waypoints st ! w) = []"
  shows "insert_round vSize sp st w = Inl UninitialisedRead"
  using assms
  by (simp add: insert_round_def find_best_insertion_def tryInsertFirst_def
      try_positions_no_orientations insert_waypoint_def)

lemma seed_path_no_orientations:
  assumes "orientation_indices (heap ! (shuffled ! 0)) = []"
  shows "seed_path vSize (Some p) heap shuffled = Inl UninitialisedRead"
  using assms by (simp add: seed_path_def)

lemma state_after_between:
  assumes go: "\<forall>e\<in>set elements. get_orientations e \<noteq> []"
    and v: "\<forall>p. vSize p \<noteq> INT64_MAX"
    and sh: "mset (shuffle_engine rng_seed (length elements)) = mset [0..<length elements]"
    and jk: "j \<le> k" "k < length elements"
  shows "\<exists>sj sk. state_after vSize shuffle_engine get_orientations elements sp j = Inr sj
           \<and> state_after vSize shuffle_engine get_orientations elements sp k = Inr sk
           \<and> path_inv sj \<and> path_inv sk
           \<and> length (waypoints sk) = length elements
           \<and> extends sj sk (map (\<lambda>i. shuffle_engine rng_seed (length elements) ! i) [Suc j..<Suc k])
           \<and> (\<forall>p\<in>set (path sj). waypoints sk ! p = waypoints sj ! p)"
proof -
  let ?n = "length elements"
  let ?sh = "shuffle_engine rng_seed ?n"
  let ?ks = "[Suc j..<Suc k]"
  note sf = shuffle_facts [of shuffle_engine "length elements", OF sh]
  from jk have j: "j < ?n" by simp
  from state_after_facts [where elements = elements and get_orientations = get_orientations
      and vSize = vSize and shuffle_engine = shuffle_engine and k = j and sp = sp, OF go v sh j]
  obtain sj
    where runj: "state_after vSize shuffle_engine get_orientations elements sp j = Inr sj"
      and invj: "path_inv sj" and lenj: "length (waypoints sj) = ?n"
      and dataj: "\<forall>p<?n. element (waypoints sj ! p) = elements ! p
                 \<and> orientation_indices (waypoints sj ! p) = get_orientations (elements ! p)"
      and msj: "mset (path sj) = mset (take (Suc j) ?sh)"
    by blast
  from msj have setj: "set (path sj) = set (take (Suc j) ?sh)" by (rule mset_eq_setD)
  have inj: "?sh ! a \<noteq> ?sh ! b" if "a < ?n" "b < ?n" "a \<noteq> b" for a b
    using that sf(2,3) by (simp add: nth_eq_iff_index_eq)
  have "inj_on (\<lambda>i. ?sh ! i) (set ?ks)"
  proof (rule inj_onI)
    fix x y assume "x \<in> set ?ks" "y \<in> set ?ks" and eq: "?sh ! x = ?sh ! y"
    with jk have "x < ?n" "y < ?n" by (simp_all del: upt_Suc)
    with inj [of x y] eq show "x = y" by blast
  qed
  then have d: "distinct (map (\<lambda>i. ?sh ! i) ?ks)"
    by (simp add: distinct_map del: upt_Suc)
  have fresh: "?sh ! i \<notin> set (path sj)" if "i \<in> set ?ks" for i
  proof
    assume "?sh ! i \<in> set (path sj)"
    then obtain t where t: "t < length (take (Suc j) ?sh)" "take (Suc j) ?sh ! t = ?sh ! i"
      unfolding setj in_set_conv_nth by blast
    from t(1) j have tj: "t < Suc j" "t < ?n" by (simp_all add: sf(2))
    from that jk have i: "j < i" "i < ?n" by (simp_all del: upt_Suc)
    from t(2) tj have "?sh ! t = ?sh ! i" by simp
    with inj [OF tj(2) i(2)] tj(1) i(1) show False by simp
  qed
  have pre: "\<forall>i\<in>set ?ks. ?sh ! i < length (waypoints sj) \<and> ?sh ! i \<notin> set (path sj)
            \<and> orientation_indices (waypoints sj ! (?sh ! i)) \<noteq> []"
  proof
    fix i assume i: "i \<in> set ?ks"
    with jk have "i < ?n" by (simp del: upt_Suc)
    then have "?sh ! i \<in> set ?sh" by (simp add: sf(2))
    then have w: "?sh ! i < ?n" by (simp add: sf(4))
    with dataj go have "orientation_indices (waypoints sj ! (?sh ! i)) \<noteq> []" by simp
    with w fresh [OF i] show "?sh ! i < length (waypoints sj) \<and> ?sh ! i \<notin> set (path sj)
            \<and> orientation_indices (waypoints sj ! (?sh ! i)) \<noteq> []"
      by (simp add: lenj)
  qed
  from insert_rest_ok [OF v invj d pre, of sp] obtain sk
    where run: "insert_rest vSize sp ?sh ?ks sj = Inr sk" and invk: "path_inv sk"
      and ext: "extends sj sk (map (\<lambda>i. ?sh ! i) ?ks)" by blast
  have "state_after vSize shuffle_engine get_orientations elements sp k
        = (case state_after vSize shuffle_engine get_orientations elements sp j of
              Inl e \<Rightarrow> Inl e
            | Inr st \<Rightarrow>
                insert_rest vSize sp
                  (std_shuffle shuffle_engine rng_seed
                     [0..<length (fillWaypoints get_orientations elements)])
                  [Suc j..<Suc k] st)"
    by (rule state_after_split [OF jk(1)])
  also have "\<dots> = Inr sk"
    unfolding runj fillWaypoints_fields(1) sf(1) using run by simp
  finally have runk: "state_after vSize shuffle_engine get_orientations elements sp k = Inr sk" .
  from ext have lenk: "length (waypoints sk) = ?n" by (simp add: extends_def lenj)
  have same: "waypoints sk ! p = waypoints sj ! p" if "p \<in> set (path sj)" for p
  proof -
    from that fresh have "p \<notin> set (map (\<lambda>i. ?sh ! i) ?ks)" by (auto simp del: upt_Suc)
    with ext show ?thesis by (simp add: extends_def del: upt_Suc)
  qed
  from runj runk invj invk lenk ext same show ?thesis by blast
qed

lemma sint_add_small:
  fixes a b :: int64
  assumes "0 \<le> sint a" "sint a < 2 ^ 32" "0 \<le> sint b" "sint b < 2 ^ 32"
  shows "sint (a + b) = sint a + sint b"
proof -
  have "- (2 ^ 63) \<le> sint a + sint b" "sint a + sint b < 2 ^ 63"
    using assms by simp_all
  then show ?thesis
    by (simp add: sint_word_ariths signed_take_bit_int_eq_self)
qed

lemma sint_add_sub_small:
  fixes a b c :: int64
  assumes "0 \<le> sint a" "sint a < 2 ^ 32" "0 \<le> sint b" "sint b < 2 ^ 32"
    "0 \<le> sint c" "sint c < 2 ^ 32"
  shows "sint (a + b - c) = sint a + sint b - sint c"
proof -
  have ab: "sint (a + b) = sint a + sint b"
    using assms(1-4) by (rule sint_add_small)
  have "- (2 ^ 63) \<le> sint a + sint b - sint c" "sint a + sint b - sint c < 2 ^ 63"
    using assms by simp_all
  moreover have "sint (a + b - c) = signed_take_bit (LENGTH(64) - 1) (sint (a + b) - sint c)"
    by (rule sint_word_diff)
  ultimately show ?thesis
    unfolding ab by (simp add: signed_take_bit_int_eq_self)
qed

lemma state_after_0:
  assumes sh: "mset (shuffle_engine rng_seed (length elements)) = mset [0..<length elements]"
  shows "state_after vSize shuffle_engine get_orientations elements sp 0 =
           seed_path vSize sp (fillWaypoints get_orientations elements)
             (shuffle_engine rng_seed (length elements))"
proof -
  note sf = shuffle_facts [of shuffle_engine "length elements", OF sh]
  show ?thesis
    unfolding state_after_def Let_def fillWaypoints_fields(1) sf(1)
    by (simp split: sum.splits)
qed

section \<open>The instance satisfies the assumptions\<close>

lemma example_vSize_ok: "\<forall>p. example_vSize p \<noteq> INT64_MAX"
proof
  fix p :: Point
  let ?k = "min (nat \<bar>X p\<bar> + nat \<bar>Y p\<bar>) 1000"
  have "unat (of_nat ?k :: int64) = ?k"
    by (simp add: unat_of_nat)
  moreover have "unat INT64_MAX = 9223372036854775807"
    by (simp add: INT64_MAX_def)
  moreover have "?k \<noteq> 9223372036854775807" by simp
  ultimately show "example_vSize p \<noteq> INT64_MAX"
    unfolding example_vSize_def by metis
qed

lemma example_engine_ok: "mset (example_engine seed n) = mset [0..<n]"
  by (simp add: example_engine_def)

lemma example_orientations_ok: "example_orientations e \<noteq> []"
  by (simp add: example_orientations_def)

lemma example_vSize_small: "0 \<le> sint (example_vSize p) \<and> sint (example_vSize p) < 2 ^ 32"
proof -
  let ?k = "min (nat \<bar>X p\<bar> + nat \<bar>Y p\<bar>) 1000"
  have "sint (of_nat ?k :: int64) = signed_take_bit 63 (int ?k)"
    by (simp add: signed_of_nat)
  also have "\<dots> = int ?k"
    by (rule signed_take_bit_int_eq_self) simp_all
  finally have "sint (example_vSize p) = int ?k" by (simp add: example_vSize_def)
  moreover have "?k < 4294967296"
    by (rule le_less_trans [OF min.cobounded2]) simp
  ultimately show ?thesis by simp
qed

section \<open>The claims\<close>

text \<open>
  The theorems below assume of the library and of \<^verbatim>\<open>intpoint.h\<close> what the source takes
  for granted: the shuffle leaves a permutation of the positions, and \<^verbatim>\<open>vSize\<close> never
  returns the largest \<^verbatim>\<open>int64_t\<close>, the sentinel of the running minimum.
\<close>

text \<open>
  Claim C1.  For a non-empty sequence of elements that all have at least one orientation
  candidate, \<^verbatim>\<open>findPath\<close> returns: the returned elements are a permutation of the input
  (same multiset, same length), \<^verbatim>\<open>element_orientations\<close> has the same length, and its
  \<open>k\<close>-th entry is a valid index into the orientation candidates of the \<open>k\<close>-th
  returned element.  Both vectors are read off the final path in path order.
\<close>

theorem findPath_permutation:
  assumes "elements \<noteq> []"
    and "\<forall>e\<in>set elements. get_orientations e \<noteq> []"
    and "\<forall>p. vSize p \<noteq> INT64_MAX"
    and "mset (shuffle_engine rng_seed (length elements)) = mset [0..<length elements]"
  shows "\<exists>es os st.
           findPath vSize shuffle_engine get_orientations elements element_orientations starting_point
             = Inr (es, os)
           \<and> mset es = mset elements
           \<and> length es = length elements
           \<and> length os = length es
           \<and> (\<forall>k<length es. os ! k < length (get_orientations (es ! k)))
           \<and> state_after vSize shuffle_engine get_orientations elements starting_point
                (length elements - 1) = Inr st
           \<and> es = map (\<lambda>p. elements ! p) (path st)
           \<and> os = map (\<lambda>p. the (best_orientation_index (waypoints st ! p))) (path st)"
proof -
  let ?n = "length elements"
  from findPath_run [where elements = elements and get_orientations = get_orientations
      and vSize = vSize and shuffle_engine = shuffle_engine and sp = starting_point
      and element_orientations = element_orientations, OF assms]
  obtain st
    where run: "state_after vSize shuffle_engine get_orientations elements starting_point (?n - 1) = Inr st"
      and inv: "path_inv st" and len: "length (waypoints st) = ?n"
      and ors: "\<forall>p<?n. orientation_indices (waypoints st ! p) = get_orientations (elements ! p)"
      and ms: "mset (path st) = mset [0..<?n]"
      and fp: "findPath vSize shuffle_engine get_orientations elements element_orientations starting_point =
               Inr (map (\<lambda>p. elements ! p) (path st),
                    map (\<lambda>p. the (best_orientation_index (waypoints st ! p))) (path st))"
    by blast
  let ?es = "map (\<lambda>p. elements ! p) (path st)"
  let ?os = "map (\<lambda>p. the (best_orientation_index (waypoints st ! p))) (path st)"
  have "mset ?es = image_mset (\<lambda>p. elements ! p) (mset (path st))"
    by (simp only: mset_map)
  also have "\<dots> = mset (map (\<lambda>p. elements ! p) [0..<?n])"
    by (simp only: ms mset_map)
  also have "\<dots> = mset elements" by (simp only: map_nth)
  finally have perm: "mset ?es = mset elements" .
  then have l: "length ?es = ?n" by (rule mset_eq_length)
  have valid: "?os ! k < length (get_orientations (?es ! k))" if "k < length ?es" for k
  proof -
    from that have mem: "path st ! k \<in> set (path st)" by simp
    with inv have p: "path st ! k < ?n" and ok: "placed_ok (waypoints st ! (path st ! k))"
      by (simp_all add: path_inv_def len)
    from ok have "the (best_orientation_index (waypoints st ! (path st ! k)))
        < length (orientation_indices (waypoints st ! (path st ! k)))"
      by (auto simp: placed_ok_def split: option.splits)
    with ors p that show ?thesis by simp
  qed
  from fp perm l valid run show ?thesis by auto
qed

theorem findPath_permutation_witness:
  "\<exists>es os st.
     findPath example_vSize example_engine example_orientations [5, 1, 3] [] None = Inr (es, os)
     \<and> mset es = mset [5, 1, 3]
     \<and> length es = length [5, 1, 3 :: nat]
     \<and> length os = length es
     \<and> (\<forall>k<length es. os ! k < length (example_orientations (es ! k)))
     \<and> state_after example_vSize example_engine example_orientations [5, 1, 3] None
          (length [5, 1, 3 :: nat] - 1) = Inr st
     \<and> es = map (\<lambda>p. [5, 1, 3] ! p) (path st)
     \<and> os = map (\<lambda>p. the (best_orientation_index (waypoints st ! p))) (path st)"
  by (rule findPath_permutation [where elements = "[5, 1, 3]" and shuffle_engine = example_engine])
     (simp_all add: example_vSize_ok example_engine_ok example_orientations_ok)

text \<open>
  Claim C3.  On the empty element sequence \<^verbatim>\<open>findPath\<close> returns the empty vector without
  an error, but it returns before \<^verbatim>\<open>element_orientations.clear()\<close>: a vector that the
  caller passes with content keeps its content, here the single entry 7.
\<close>

theorem findPath_empty_keeps_element_orientations:
  "findPath vSize shuffle_engine get_orientations [] [7] starting_point = Inr ([], [7])"
  by (simp add: findPath_def)

text \<open>
  Claim C7.  Without a starting point the path is seeded with the first shuffled waypoint
  alone, its chosen orientation index being 0; for a single element the result is that
  element with orientation index 0.
\<close>

theorem seed_without_starting_point:
  "seed_path vSize None heap shuffled = Inr (seeded heap (shuffled ! 0) 0)
   \<and> path (seeded heap (shuffled ! 0) 0) = [shuffled ! 0]
   \<and> (shuffled ! 0 < length heap \<longrightarrow>
        best_orientation_index (waypoints (seeded heap (shuffled ! 0) 0) ! (shuffled ! 0)) = Some 0)
   \<and> (shuffle_engine rng_seed 1 = [0] \<longrightarrow>
        findPath vSize shuffle_engine get_orientations [e] element_orientations None = Inr ([e], [0]))"
proof -
  have "findPath vSize shuffle_engine get_orientations [e] element_orientations None = Inr ([e], [0])"
    if "shuffle_engine rng_seed 1 = [0]"
    using that
    by (simp add: findPath_def fillWaypoints_def std_shuffle_def seed_path_def Let_def)
  then show ?thesis
    by (simp add: seed_path_None seeded_fields seeded_chosen)
qed

theorem seed_without_starting_point_witness:
  "example_engine rng_seed 1 = [0]
   \<and> findPath example_vSize example_engine example_orientations [4] [] None = Inr ([4], [0])"
proof -
  have e: "example_engine rng_seed 1 = [0]" by (simp add: example_engine_def)
  with seed_without_starting_point [where shuffle_engine = example_engine and e = 4
      and vSize = example_vSize and get_orientations = example_orientations
      and element_orientations = "[]"]
  show ?thesis by blast
qed


text \<open>
  Claim C6.  With a starting point, the path is seeded with the first shuffled waypoint
  alone, in the orientation whose entry point is nearest to the starting point: its
  distance is at most that of every candidate, and strictly less than that of every
  candidate with a lower index.
\<close>

theorem seed_with_starting_point:
  assumes "orientation_indices (heap ! (shuffled ! 0)) \<noteq> []"
    and "\<forall>p. vSize p \<noteq> INT64_MAX"
  shows "\<exists>i<length (orientation_indices (heap ! (shuffled ! 0))).
           seed_path vSize (Some sp) heap shuffled = Inr (seeded heap (shuffled ! 0) i)
           \<and> path (seeded heap (shuffled ! 0) i) = [shuffled ! 0]
           \<and> (shuffled ! 0 < length heap \<longrightarrow>
                best_orientation_index (waypoints (seeded heap (shuffled ! 0) i) ! (shuffled ! 0)) = Some i)
           \<and> (\<forall>j<length (orientation_indices (heap ! (shuffled ! 0))).
                 distance vSize sp (entry_point (heap ! (shuffled ! 0)) i)
                 \<le>s distance vSize sp (entry_point (heap ! (shuffled ! 0)) j))
           \<and> (\<forall>j<i. distance vSize sp (entry_point (heap ! (shuffled ! 0)) i)
                 <s distance vSize sp (entry_point (heap ! (shuffled ! 0)) j))"
  using seed_path_Some [OF assms, of sp] by (auto simp: seeded_fields seeded_chosen)

theorem seed_with_starting_point_witness:
  "seed_path example_vSize (Some \<lparr>X = 4, Y = 9\<rparr>) (fillWaypoints example_orientations [4]) [0]
     = Inr (seeded (fillWaypoints example_orientations [4]) 0 1)"
proof -
  let ?heap = "fillWaypoints example_orientations [4]"
  let ?sp = "\<lparr>X = 4, Y = 9\<rparr>"
  have m: "orientation_indices (?heap ! ([0] ! 0)) \<noteq> []"
    by (simp add: fillWaypoints_def example_orientations_def)
  from seed_with_starting_point [OF m example_vSize_ok, of ?sp] obtain i
    where i: "i < length (orientation_indices (?heap ! ([0] ! 0)))"
      and s: "seed_path example_vSize (Some ?sp) ?heap [0] = Inr (seeded ?heap ([0] ! 0) i)"
      and le: "\<forall>j<length (orientation_indices (?heap ! ([0] ! 0))).
                 distance example_vSize ?sp (entry_point (?heap ! ([0] ! 0)) i)
                 \<le>s distance example_vSize ?sp (entry_point (?heap ! ([0] ! 0)) j)"
    by blast
  have len: "length (orientation_indices (?heap ! ([0] ! 0))) = 2"
    by (simp add: fillWaypoints_def example_orientations_def)
  have d0: "distance example_vSize ?sp (entry_point (?heap ! ([0] ! 0)) 0) = 9"
    by (simp add: distance_def entry_point_def fillWaypoints_def example_orientations_def
        point_minus_def example_vSize_def)
  have d1: "distance example_vSize ?sp (entry_point (?heap ! ([0] ! 0)) 1) = 1"
    by (simp add: distance_def entry_point_def fillWaypoints_def example_orientations_def
        point_minus_def example_vSize_def)
  have "i \<noteq> 0"
  proof
    assume "i = 0"
    with le len have "distance example_vSize ?sp (entry_point (?heap ! ([0] ! 0)) 0)
                 \<le>s distance example_vSize ?sp (entry_point (?heap ! ([0] ! 0)) 1)"
      by simp
    then show False unfolding d0 d1 by (simp add: word_sle_eq)
  qed
  with i len have "i = 1" by simp
  with s show ?thesis by simp
qed

text \<open>
  Claim C2.  \<^verbatim>\<open>findPath\<close> does not give identical outputs for all identical arguments:
  the local variable \<^verbatim>\<open>best_orientation_index\<close> has no initial value, and when a waypoint
  has no orientation candidate no loop assigns it, so the unassigned value is copied into
  the waypoint (line 259 in the seeding, line 290 in a round) and from there into
  \<^verbatim>\<open>element_orientations\<close>.  In the model that read is the error value: first for one
  element without candidates and a starting point, then for two elements of which the one
  inserted in the first round has no candidate.
\<close>

theorem findPath_indeterminate_without_orientations:
  "findPath vSize example_engine (\<lambda>e. []) [e] element_orientations (Some p)
     = Inl UninitialisedRead
   \<and> findPath vSize example_engine (\<lambda>e. if e = 5 then [] else example_orientations e) [5, 1]
       element_orientations None
     = Inl UninitialisedRead"
proof
  show "findPath vSize example_engine (\<lambda>e. []) [e] element_orientations (Some p)
     = Inl UninitialisedRead"
    by (simp add: findPath_def fillWaypoints_def std_shuffle_def example_engine_def
        seed_path_def Let_def)
next
  let ?go = "\<lambda>e :: nat. if e = 5 then [] else example_orientations e"
  let ?heap = "fillWaypoints ?go [5, 1]"
  have sh: "std_shuffle example_engine rng_seed [0..<length ?heap] = [1, 0]"
    by (simp add: std_shuffle_def example_engine_def fillWaypoints_def upt_rec)
  have seed: "seed_path vSize None ?heap [1, 0] = Inr (seeded ?heap 1 0)"
    using seed_path_None [of vSize ?heap "[1, 0]"] by simp
  have "orientation_indices (waypoints (seeded ?heap 1 0) ! 0) = []"
    by (simp add: seeded_fields fillWaypoints_def)
  then have round: "insert_round vSize None (seeded ?heap 1 0) 0 = Inl UninitialisedRead"
    by (rule insert_round_no_orientations)
  have idx: "[1..<length [1, 0 :: nat]] = [1]" by (simp add: upt_rec)
  show "findPath vSize example_engine ?go [5, 1] element_orientations None = Inl UninitialisedRead"
    unfolding findPath_def Let_def sh seed idx using round by simp
qed


text \<open>
  Claim C4.  In round \<open>k\<close> of the main loop the scan ends with a position \<open>ins\<close> and
  an orientation \<open>i\<close> whose insertion cost is at most the cost of every pair of a
  position of the path (front, between two neighbours, back) and an orientation of the
  waypoint, and strictly less than the cost of every pair that the scan meets earlier
  (a smaller position, or the same position and a smaller orientation index); the round
  commits exactly that pair.  Costs are compared as signed 64-bit numbers.
\<close>

theorem insertion_round_locally_optimal:
  assumes "\<forall>e\<in>set elements. get_orientations e \<noteq> []"
    and "\<forall>p. vSize p \<noteq> INT64_MAX"
    and "mset (shuffle_engine rng_seed (length elements)) = mset [0..<length elements]"
    and "0 < k" and "k < length elements"
  shows "\<exists>st b ins i.
           state_after vSize shuffle_engine get_orientations elements starting_point (k - 1) = Inr st
           \<and> find_best_insertion vSize starting_point (waypoints st) (path st)
                (shuffle_engine rng_seed (length elements) ! k) = Inr b
           \<and> best_insert b = Some ins \<and> best_orientation b = Some i
           \<and> ins \<le> length (path st)
           \<and> i < length (orientation_indices
                           (waypoints st ! (shuffle_engine rng_seed (length elements) ! k)))
           \<and> best_distance b =
                insertion_cost vSize starting_point (waypoints st) (path st)
                  (shuffle_engine rng_seed (length elements) ! k) ins i
           \<and> (\<forall>ins' i'. ins' \<le> length (path st) \<longrightarrow>
                 i' < length (orientation_indices
                                (waypoints st ! (shuffle_engine rng_seed (length elements) ! k))) \<longrightarrow>
                 best_distance b \<le>s
                   insertion_cost vSize starting_point (waypoints st) (path st)
                     (shuffle_engine rng_seed (length elements) ! k) ins' i')
           \<and> (\<forall>ins' i'. ins' \<le> length (path st) \<longrightarrow>
                 i' < length (orientation_indices
                                (waypoints st ! (shuffle_engine rng_seed (length elements) ! k))) \<longrightarrow>
                 (ins' < ins \<or> (ins' = ins \<and> i' < i)) \<longrightarrow>
                 best_distance b <s
                   insertion_cost vSize starting_point (waypoints st) (path st)
                     (shuffle_engine rng_seed (length elements) ! k) ins' i')
           \<and> state_after vSize shuffle_engine get_orientations elements starting_point k
               = Inr (inserted st (shuffle_engine rng_seed (length elements) ! k) ins i)"
proof -
  let ?w = "shuffle_engine rng_seed (length elements) ! k"
  from round_of_findPath [where elements = elements and get_orientations = get_orientations
      and vSize = vSize and shuffle_engine = shuffle_engine and k = k and sp = starting_point,
      OF assms]
  obtain st
    where run: "state_after vSize shuffle_engine get_orientations elements starting_point (k - 1) = Inr st"
      and inv: "path_inv st"
      and m: "orientation_indices (waypoints st ! ?w) \<noteq> []"
      and step: "state_after vSize shuffle_engine get_orientations elements starting_point k
               = insert_round vSize starting_point st ?w"
    by blast
  from round_optimal [OF inv m assms(2), of starting_point] step run
  show ?thesis by metis
qed


theorem insertion_round_locally_optimal_witness:
  "\<exists>st b ins i.
     state_after example_vSize example_engine example_orientations [5, 1, 3] None (1 - 1) = Inr st
     \<and> find_best_insertion example_vSize None (waypoints st) (path st)
          (example_engine rng_seed (length [5, 1, 3 :: nat]) ! 1) = Inr b
     \<and> best_insert b = Some ins \<and> best_orientation b = Some i
     \<and> ins \<le> length (path st)
     \<and> i < length (orientation_indices
                     (waypoints st ! (example_engine rng_seed (length [5, 1, 3 :: nat]) ! 1)))
     \<and> best_distance b =
          insertion_cost example_vSize None (waypoints st) (path st)
            (example_engine rng_seed (length [5, 1, 3 :: nat]) ! 1) ins i
     \<and> (\<forall>ins' i'. ins' \<le> length (path st) \<longrightarrow>
           i' < length (orientation_indices
                          (waypoints st ! (example_engine rng_seed (length [5, 1, 3 :: nat]) ! 1))) \<longrightarrow>
           best_distance b \<le>s
             insertion_cost example_vSize None (waypoints st) (path st)
               (example_engine rng_seed (length [5, 1, 3 :: nat]) ! 1) ins' i')
     \<and> (\<forall>ins' i'. ins' \<le> length (path st) \<longrightarrow>
           i' < length (orientation_indices
                          (waypoints st ! (example_engine rng_seed (length [5, 1, 3 :: nat]) ! 1))) \<longrightarrow>
           (ins' < ins \<or> (ins' = ins \<and> i' < i)) \<longrightarrow>
           best_distance b <s
             insertion_cost example_vSize None (waypoints st) (path st)
               (example_engine rng_seed (length [5, 1, 3 :: nat]) ! 1) ins' i')
     \<and> state_after example_vSize example_engine example_orientations [5, 1, 3] None 1
         = Inr (inserted st (example_engine rng_seed (length [5, 1, 3 :: nat]) ! 1) ins i)"
  by (rule insertion_round_locally_optimal [where elements = "[5, 1, 3]"
        and shuffle_engine = example_engine and k = 1])
     (simp_all add: example_vSize_ok example_engine_ok example_orientations_ok)

text \<open>
  Claim C9, as stated, bounds the pairs a round inspects by the path length times the
  number of orientations.  The first round on two elements with two orientations each
  inspects four pairs (front and back, two orientations each) while that product is two.
\<close>

theorem round_inspects_more_than_path_times_orientations:
  "\<exists>st b.
     state_after example_vSize example_engine example_orientations [5, 1] None 0 = Inr st
     \<and> find_best_insertion example_vSize None (waypoints st) (path st)
          (example_engine rng_seed 2 ! 1) = Inr b
     \<and> inspected b = 4
     \<and> length (path st) * length (orientation_indices (waypoints st ! (example_engine rng_seed 2 ! 1))) = 2
     \<and> \<not> inspected b
           \<le> length (path st) * length (orientation_indices (waypoints st ! (example_engine rng_seed 2 ! 1)))"
proof -
  let ?w = "example_engine rng_seed 2 ! 1"
  have pre: "\<forall>e\<in>set [5, 1]. example_orientations e \<noteq> []"
    "mset (example_engine rng_seed (length [5, 1 :: nat])) = mset [0..<length [5, 1 :: nat]]"
    "0 < (1 :: nat)" "1 < length [5, 1 :: nat]"
    by (simp_all add: example_orientations_ok example_engine_ok)
  from round_of_findPath [where elements = "[5, 1]" and get_orientations = example_orientations
      and vSize = example_vSize and shuffle_engine = example_engine and k = 1 and sp = None,
      OF pre(1) example_vSize_ok pre(2,3,4)]
  obtain st
    where run0: "state_after example_vSize example_engine example_orientations [5, 1] None (1 - 1) = Inr st"
      and inv: "path_inv st" and lp: "length (path st) = 1"
      and o0: "orientation_indices (waypoints st ! (example_engine rng_seed (length [5, 1 :: nat]) ! 1))
               = example_orientations ([5, 1] ! (example_engine rng_seed (length [5, 1 :: nat]) ! 1))"
    by blast
  have "length [5, 1 :: nat] = 2" by simp
  then have e: "example_engine rng_seed (length [5, 1 :: nat]) ! 1 = ?w" by (simp only:)
  have z: "(1 :: nat) - 1 = 0" by simp
  note run = run0 [unfolded z] and o = o0 [unfolded e]
  from o have m: "orientation_indices (waypoints st ! ?w) \<noteq> []"
    by (simp add: example_orientations_def)
  from o have len: "length (orientation_indices (waypoints st ! ?w)) = 2"
    by (simp add: example_orientations_def)
  from round_optimal [OF inv m example_vSize_ok, of None] obtain b
    where fb: "find_best_insertion example_vSize None (waypoints st) (path st) ?w = Inr b"
      and insp: "inspected b = Suc (length (path st)) * length (orientation_indices (waypoints st ! ?w))"
    by blast
  from insp have four: "inspected b = 4" unfolding lp len by simp
  have two: "length (path st) * length (orientation_indices (waypoints st ! ?w)) = 2"
    unfolding lp len by simp
  have "\<not> inspected b \<le> length (path st) * length (orientation_indices (waypoints st ! ?w))"
    unfolding four two by simp
  with run fb four two show ?thesis by blast
qed

text \<open>
  Claim C9, amended.  For \<open>n\<close> elements that all have an orientation candidate,
  \<^verbatim>\<open>findPath\<close> returns.  Without elements it returns at once.  Otherwise the path is
  seeded with one waypoint; for every \<open>k\<close> from 1 to \<open>n - 1\<close>, the state after
  \<open>k\<close> rounds is the result of one insertion round on the state after \<open>k - 1\<close>
  rounds, which makes the path one waypoint longer and whose scan inspects exactly
  (path length + 1) times the number of orientations of its waypoint many pairs; and what
  \<^verbatim>\<open>findPath\<close> returns is the path after \<open>n - 1\<close> rounds, of length \<open>n\<close>, copied out.
\<close>

theorem findPath_rounds:
  assumes "\<forall>e\<in>set (elements :: 'e list). get_orientations e \<noteq> []"
    and "\<forall>p. vSize p \<noteq> INT64_MAX"
    and "mset (shuffle_engine rng_seed (length elements)) = mset [0..<length elements]"
  shows "(elements = [] \<longrightarrow>
            findPath vSize shuffle_engine get_orientations elements element_orientations
              starting_point = Inr ([], element_orientations))
         \<and> (elements \<noteq> [] \<longrightarrow>
              (\<exists>st0 st r.
                 seed_path vSize starting_point (fillWaypoints get_orientations elements)
                   (shuffle_engine rng_seed (length elements)) = Inr st0
                 \<and> state_after vSize shuffle_engine get_orientations elements starting_point 0
                     = Inr st0
                 \<and> length (path st0) = 1
                 \<and> state_after vSize shuffle_engine get_orientations elements starting_point
                       (length elements - 1) = Inr st
                 \<and> length (path st) = length elements
                 \<and> rounds st = length elements - 1
                 \<and> linearise (waypoints st) (path st) = Inr r
                 \<and> findPath vSize shuffle_engine get_orientations elements element_orientations
                       starting_point = Inr r
                 \<and> length (fst r) = length elements))
         \<and> (\<forall>k. 0 < k \<longrightarrow> k < length elements \<longrightarrow>
               (\<exists>st b st'.
                  state_after vSize shuffle_engine get_orientations elements starting_point (k - 1)
                    = Inr st
                  \<and> length (path st) = k
                  \<and> find_best_insertion vSize starting_point (waypoints st) (path st)
                       (shuffle_engine rng_seed (length elements) ! k) = Inr b
                  \<and> inspected b =
                       (length (path st) + 1)
                       * length (orientation_indices
                                   (waypoints st ! (shuffle_engine rng_seed (length elements) ! k)))
                  \<and> inspected b \<le>
                       2 * (length (path st)
                            * length (orientation_indices
                                   (waypoints st ! (shuffle_engine rng_seed (length elements) ! k))))
                  \<and> insert_round vSize starting_point st
                       (shuffle_engine rng_seed (length elements) ! k) = Inr st'
                  \<and> state_after vSize shuffle_engine get_orientations elements starting_point k
                       = Inr st'
                  \<and> length (path st') = length (path st) + 1
                  \<and> rounds st' = rounds st + 1))"
proof (intro conjI impI allI)
  assume "elements = []"
  then show "findPath vSize shuffle_engine get_orientations elements element_orientations
              starting_point = Inr ([], element_orientations)"
    by (simp add: findPath_def)
next
  let ?n = "length elements"
  let ?sh = "shuffle_engine rng_seed ?n"
  let ?heap = "fillWaypoints get_orientations elements"
  assume ne: "elements \<noteq> []"
  then have n0: "0 < ?n" by simp
  from state_after_facts [where elements = elements and get_orientations = get_orientations
      and vSize = vSize and shuffle_engine = shuffle_engine and k = 0 and sp = starting_point,
      OF assms n0]
  obtain st0
    where run0: "state_after vSize shuffle_engine get_orientations elements starting_point 0 = Inr st0"
      and ms0: "mset (path st0) = mset (take (Suc 0) ?sh)"
    by blast
  note sf = shuffle_facts [of shuffle_engine "length elements", OF assms(3)]
  from ne have "Suc 0 \<le> ?n" by (cases elements) simp_all
  then have "length (take (Suc 0) ?sh) = 1" by (simp add: sf(2) min_def)
  moreover from ms0 have "length (path st0) = length (take (Suc 0) ?sh)" by (rule mset_eq_length)
  ultimately have l0: "length (path st0) = 1" by simp
  have seed: "seed_path vSize starting_point ?heap ?sh = Inr st0"
    using run0 unfolding state_after_0 [where elements = elements
        and shuffle_engine = shuffle_engine, OF assms(3)] .
  from findPath_run [where elements = elements and get_orientations = get_orientations
      and vSize = vSize and shuffle_engine = shuffle_engine and sp = starting_point
      and element_orientations = element_orientations, OF ne assms]
  obtain st
    where run: "state_after vSize shuffle_engine get_orientations elements starting_point (?n - 1) = Inr st"
      and ms: "mset (path st) = mset [0..<?n]"
      and r: "rounds st = ?n - 1"
      and fp: "findPath vSize shuffle_engine get_orientations elements element_orientations starting_point =
               Inr (map (\<lambda>p. elements ! p) (path st),
                    map (\<lambda>p. the (best_orientation_index (waypoints st ! p))) (path st))"
    by blast
  let ?r = "(map (\<lambda>p. elements ! p) (path st),
             map (\<lambda>p. the (best_orientation_index (waypoints st ! p))) (path st))"
  from ms have "length (path st) = length [0..<?n]" by (rule mset_eq_length)
  then have l: "length (path st) = ?n" by simp
  have "findPath vSize shuffle_engine get_orientations elements element_orientations starting_point =
          linearise (waypoints st) (path st)"
    unfolding findPath_state_after [where elements = elements
          and shuffle_engine = shuffle_engine, OF ne assms(3)] run by simp
  with fp have lin: "linearise (waypoints st) (path st) = Inr ?r" by simp
  have lr: "length (fst ?r) = ?n" by (simp add: l)
  show "\<exists>st0 st r.
                 seed_path vSize starting_point ?heap ?sh = Inr st0
                 \<and> state_after vSize shuffle_engine get_orientations elements starting_point 0
                     = Inr st0
                 \<and> length (path st0) = 1
                 \<and> state_after vSize shuffle_engine get_orientations elements starting_point
                       (?n - 1) = Inr st
                 \<and> length (path st) = ?n
                 \<and> rounds st = ?n - 1
                 \<and> linearise (waypoints st) (path st) = Inr r
                 \<and> findPath vSize shuffle_engine get_orientations elements element_orientations
                       starting_point = Inr r
                 \<and> length (fst r) = ?n"
    by (intro exI [of _ st0] exI [of _ st] exI [of _ ?r] conjI seed run0 l0 run l r lin fp lr)
next
  fix k assume k: "0 < k" "k < length elements"
  let ?w = "shuffle_engine rng_seed (length elements) ! k"
  from round_of_findPath [where elements = elements and get_orientations = get_orientations
      and vSize = vSize and shuffle_engine = shuffle_engine and k = k and sp = starting_point,
      OF assms k]
  obtain st
    where run: "state_after vSize shuffle_engine get_orientations elements starting_point (k - 1) = Inr st"
      and inv: "path_inv st" and lp: "length (path st) = k"
      and m: "orientation_indices (waypoints st ! ?w) \<noteq> []"
      and step: "state_after vSize shuffle_engine get_orientations elements starting_point k
               = insert_round vSize starting_point st ?w"
    by blast
  from round_optimal [OF inv m assms(2), of starting_point] obtain b ins i
    where fb: "find_best_insertion vSize starting_point (waypoints st) (path st) ?w = Inr b"
      and insp: "inspected b = Suc (length (path st)) * length (orientation_indices (waypoints st ! ?w))"
      and ir: "insert_round vSize starting_point st ?w = Inr (inserted st ?w ins i)"
    by blast
  let ?st' = "inserted st ?w ins i"
  from insp have i1: "inspected b = (length (path st) + 1) * length (orientation_indices (waypoints st ! ?w))"
    by simp
  from k lp have "length (path st) + 1 \<le> 2 * length (path st)" by simp
  then have "(length (path st) + 1) * length (orientation_indices (waypoints st ! ?w))
      \<le> (2 * length (path st)) * length (orientation_indices (waypoints st ! ?w))"
    by (rule mult_le_mono1)
  with i1 have i2: "inspected b \<le> 2 * (length (path st) * length (orientation_indices (waypoints st ! ?w)))"
    by (simp add: mult.assoc)
  have step': "state_after vSize shuffle_engine get_orientations elements starting_point k = Inr ?st'"
    using step ir by simp
  have lp': "length (path ?st') = length (path st) + 1"
    by (simp add: path_inserted)
  have r': "rounds ?st' = rounds st + 1" by simp
  show "\<exists>st b st'.
                  state_after vSize shuffle_engine get_orientations elements starting_point (k - 1)
                    = Inr st
                  \<and> length (path st) = k
                  \<and> find_best_insertion vSize starting_point (waypoints st) (path st) ?w = Inr b
                  \<and> inspected b =
                       (length (path st) + 1) * length (orientation_indices (waypoints st ! ?w))
                  \<and> inspected b \<le>
                       2 * (length (path st) * length (orientation_indices (waypoints st ! ?w)))
                  \<and> insert_round vSize starting_point st ?w = Inr st'
                  \<and> state_after vSize shuffle_engine get_orientations elements starting_point k
                       = Inr st'
                  \<and> length (path st') = length (path st) + 1
                  \<and> rounds st' = rounds st + 1"
    by (intro exI [of _ st] exI [of _ b] exI [of _ ?st'] conjI run lp fb i1 i2 ir step' lp' r')
qed


theorem findPath_rounds_witness:
  "findPath example_vSize example_engine example_orientations [] [7] None = Inr ([], [7])
   \<and> (\<exists>st0 st r.
         seed_path example_vSize None (fillWaypoints example_orientations [5, 1, 3])
           (example_engine rng_seed (length [5, 1, 3 :: nat])) = Inr st0
         \<and> state_after example_vSize example_engine example_orientations [5, 1, 3] None 0 = Inr st0
         \<and> length (path st0) = 1
         \<and> state_after example_vSize example_engine example_orientations [5, 1, 3] None
               (length [5, 1, 3 :: nat] - 1) = Inr st
         \<and> length (path st) = length [5, 1, 3 :: nat]
         \<and> rounds st = length [5, 1, 3 :: nat] - 1
         \<and> linearise (waypoints st) (path st) = Inr r
         \<and> findPath example_vSize example_engine example_orientations [5, 1, 3] [] None = Inr r
         \<and> length (fst r) = length [5, 1, 3 :: nat])
   \<and> (\<exists>st b st'.
         state_after example_vSize example_engine example_orientations [5, 1, 3] None (2 - 1) = Inr st
         \<and> length (path st) = 2
         \<and> find_best_insertion example_vSize None (waypoints st) (path st)
              (example_engine rng_seed (length [5, 1, 3 :: nat]) ! 2) = Inr b
         \<and> inspected b =
              (length (path st) + 1)
              * length (orientation_indices
                          (waypoints st ! (example_engine rng_seed (length [5, 1, 3 :: nat]) ! 2)))
         \<and> inspected b \<le>
              2 * (length (path st)
                   * length (orientation_indices
                          (waypoints st ! (example_engine rng_seed (length [5, 1, 3 :: nat]) ! 2))))
         \<and> insert_round example_vSize None st
              (example_engine rng_seed (length [5, 1, 3 :: nat]) ! 2) = Inr st'
         \<and> state_after example_vSize example_engine example_orientations [5, 1, 3] None 2 = Inr st'
         \<and> length (path st') = length (path st) + 1
         \<and> rounds st' = rounds st + 1)"
proof -
  have pre0: "\<forall>e\<in>set ([] :: nat list). example_orientations e \<noteq> []"
    "mset (example_engine rng_seed (length ([] :: nat list))) = mset [0..<length ([] :: nat list)]"
    by (simp_all add: example_engine_ok)
  have pre: "\<forall>e\<in>set [5, 1, 3]. example_orientations e \<noteq> []"
    "mset (example_engine rng_seed (length [5, 1, 3 :: nat])) = mset [0..<length [5, 1, 3 :: nat]]"
    by (simp_all add: example_orientations_ok example_engine_ok)
  have k: "0 < (2 :: nat)" "2 < length [5, 1, 3 :: nat]" "[5, 1, 3 :: nat] \<noteq> []" by simp_all
  note empty = findPath_rounds [where elements = "[]" and get_orientations = example_orientations
      and vSize = example_vSize and shuffle_engine = example_engine and starting_point = None
      and element_orientations = "[7]", OF pre0(1) example_vSize_ok pre0(2)]
  note inst = findPath_rounds [where elements = "[5, 1, 3]" and get_orientations = example_orientations
      and vSize = example_vSize and shuffle_engine = example_engine and starting_point = None
      and element_orientations = "[]", OF pre(1) example_vSize_ok pre(2)]
  note c1 = empty [THEN conjunct1, THEN mp, OF refl]
  note c2 = inst [THEN conjunct2, THEN conjunct1, THEN mp, OF k(3)]
  note c3 = inst [THEN conjunct2, THEN conjunct2, THEN spec, THEN mp, THEN mp, OF k(1) k(2)]
  show ?thesis by (intro conjI c1 c2 c3)
qed

text \<open>
  Claim C8.  Between the state after round \<open>j\<close> and the state after a later round
  \<open>k\<close>, the old path is a subsequence of the new path (nothing is removed or
  reordered) and every waypoint on the old path is unchanged, its chosen orientation
  included.  A waypoint that is not yet on the path has a field that was never assigned,
  a waypoint on the path has an assigned one.  A round that succeeds does nothing but
  assign the field of its waypoint and insert that waypoint at one position of the path.
\<close>

theorem placed_waypoints_never_change:
  assumes "\<forall>e\<in>set (elements :: 'e list). get_orientations e \<noteq> []"
    and "\<forall>p. vSize p \<noteq> INT64_MAX"
    and "mset (shuffle_engine rng_seed (length elements)) = mset [0..<length elements]"
    and "j \<le> k" and "k < length elements"
  shows "(\<exists>sj sk.
            state_after vSize shuffle_engine get_orientations elements starting_point j = Inr sj
            \<and> state_after vSize shuffle_engine get_orientations elements starting_point k = Inr sk
            \<and> subseq (path sj) (path sk)
            \<and> (\<forall>p\<in>set (path sj). waypoints sk ! p = waypoints sj ! p)
            \<and> (\<forall>p\<in>set (path sk). best_orientation_index (waypoints sk ! p) \<noteq> None)
            \<and> (\<forall>p<length elements. p \<notin> set (path sk) \<longrightarrow>
                  best_orientation_index (waypoints sk ! p) = None))
         \<and> (\<forall>(st :: 'e tsp_state) w st'. insert_round vSize starting_point st w = Inr st' \<longrightarrow>
               (\<exists>ins i. st' = inserted st w ins i
                  \<and> path st' = take ins (path st) @ w # drop ins (path st)
                  \<and> (\<forall>p. p \<noteq> w \<longrightarrow> waypoints st' ! p = waypoints st ! p)))"
proof -
  from state_after_between [where elements = elements and get_orientations = get_orientations
      and vSize = vSize and shuffle_engine = shuffle_engine and j = j and k = k
      and sp = starting_point, OF assms]
  obtain sj sk
    where runj: "state_after vSize shuffle_engine get_orientations elements starting_point j = Inr sj"
      and runk: "state_after vSize shuffle_engine get_orientations elements starting_point k = Inr sk"
      and invk: "path_inv sk" and lenk: "length (waypoints sk) = length elements"
      and ext: "extends sj sk (map (\<lambda>i. shuffle_engine rng_seed (length elements) ! i) [Suc j..<Suc k])"
      and same: "\<forall>p\<in>set (path sj). waypoints sk ! p = waypoints sj ! p"
    by blast
  from ext have sub: "subseq (path sj) (path sk)" by (simp add: extends_def)
  from invk have placed: "\<forall>p\<in>set (path sk). best_orientation_index (waypoints sk ! p) \<noteq> None"
    by (auto simp: path_inv_def placed_ok_def split: option.splits)
  from invk have unplaced: "\<forall>p<length elements. p \<notin> set (path sk) \<longrightarrow>
                  best_orientation_index (waypoints sk ! p) = None"
    by (simp add: path_inv_def lenk)
  have shape: "\<exists>ins i. st' = inserted st w ins i
                  \<and> path st' = take ins (path st) @ w # drop ins (path st)
                  \<and> (\<forall>p. p \<noteq> w \<longrightarrow> waypoints st' ! p = waypoints st ! p)"
    if "insert_round vSize starting_point st w = Inr st'" for st w and st' :: "'e tsp_state"
  proof -
    from insert_round_shape [OF that] obtain ins i where "st' = inserted st w ins i" by blast
    then show ?thesis by (auto simp: path_inserted waypoints_inserted_other)
  qed
  have first: "\<exists>sj sk.
            state_after vSize shuffle_engine get_orientations elements starting_point j = Inr sj
            \<and> state_after vSize shuffle_engine get_orientations elements starting_point k = Inr sk
            \<and> subseq (path sj) (path sk)
            \<and> (\<forall>p\<in>set (path sj). waypoints sk ! p = waypoints sj ! p)
            \<and> (\<forall>p\<in>set (path sk). best_orientation_index (waypoints sk ! p) \<noteq> None)
            \<and> (\<forall>p<length elements. p \<notin> set (path sk) \<longrightarrow>
                  best_orientation_index (waypoints sk ! p) = None)"
    by (intro exI [of _ sj] exI [of _ sk] conjI runj runk sub same placed unplaced)
  show ?thesis
  proof (intro conjI allI impI)
    show "\<exists>sj sk.
            state_after vSize shuffle_engine get_orientations elements starting_point j = Inr sj
            \<and> state_after vSize shuffle_engine get_orientations elements starting_point k = Inr sk
            \<and> subseq (path sj) (path sk)
            \<and> (\<forall>p\<in>set (path sj). waypoints sk ! p = waypoints sj ! p)
            \<and> (\<forall>p\<in>set (path sk). best_orientation_index (waypoints sk ! p) \<noteq> None)
            \<and> (\<forall>p<length elements. p \<notin> set (path sk) \<longrightarrow>
                  best_orientation_index (waypoints sk ! p) = None)"
      by (rule first)
  next
    fix st w and st' :: "'e tsp_state"
    assume "insert_round vSize starting_point st w = Inr st'"
    then show "\<exists>ins i. st' = inserted st w ins i
                  \<and> path st' = take ins (path st) @ w # drop ins (path st)
                  \<and> (\<forall>p. p \<noteq> w \<longrightarrow> waypoints st' ! p = waypoints st ! p)"
      by (rule shape)
  qed
qed

theorem placed_waypoints_never_change_witness:
  "\<exists>sj sk.
     state_after example_vSize example_engine example_orientations [5, 1, 3] None 1 = Inr sj
     \<and> state_after example_vSize example_engine example_orientations [5, 1, 3] None 2 = Inr sk
     \<and> subseq (path sj) (path sk)
     \<and> (\<forall>p\<in>set (path sj). waypoints sk ! p = waypoints sj ! p)
     \<and> (\<forall>p\<in>set (path sk). best_orientation_index (waypoints sk ! p) \<noteq> None)
     \<and> (\<forall>p<length [5, 1, 3 :: nat]. p \<notin> set (path sk) \<longrightarrow>
           best_orientation_index (waypoints sk ! p) = None)"
proof -
  have pre: "\<forall>e\<in>set [5, 1, 3]. example_orientations e \<noteq> []"
    "mset (example_engine rng_seed (length [5, 1, 3 :: nat])) = mset [0..<length [5, 1, 3 :: nat]]"
    "(1 :: nat) \<le> 2" "2 < length [5, 1, 3 :: nat]"
    by (simp_all add: example_orientations_ok example_engine_ok)
  from placed_waypoints_never_change [where elements = "[5, 1, 3]"
      and get_orientations = example_orientations and vSize = example_vSize
      and shuffle_engine = example_engine and j = 1 and k = 2 and starting_point = None,
      OF pre(1) example_vSize_ok pre(2,3,4)]
  show ?thesis by blast
qed

text \<open>
  Claim C10.  When every element has an orientation candidate, the scan of every round ends
  with a running minimum below the sentinel and with \<^verbatim>\<open>best_orientation_index\<close> and
  \<^verbatim>\<open>best_insert\<close> assigned, the waypoints on the path have chosen orientations within
  the bounds of their candidates, and \<^verbatim>\<open>findPath\<close> returns a proper result: no read of an
  unassigned variable and no access out of bounds happens.  A round whose waypoint has no
  orientation candidate reads the unassigned \<^verbatim>\<open>best_orientation_index\<close>, and so does
  the seeding with a starting point.
\<close>

theorem every_scan_finds_a_candidate:
  assumes "\<forall>e\<in>set (elements :: 'e list). get_orientations e \<noteq> []"
    and "\<forall>p. vSize p \<noteq> INT64_MAX"
    and "mset (shuffle_engine rng_seed (length elements)) = mset [0..<length elements]"
  shows "(\<forall>k. 0 < k \<longrightarrow> k < length elements \<longrightarrow>
            (\<exists>st b ins i.
               state_after vSize shuffle_engine get_orientations elements starting_point (k - 1) = Inr st
               \<and> (\<forall>p\<in>set (path st). p < length (waypoints st) \<and> placed_ok (waypoints st ! p))
               \<and> find_best_insertion vSize starting_point (waypoints st) (path st)
                    (shuffle_engine rng_seed (length elements) ! k) = Inr b
               \<and> best_distance b <s INT64_MAX
               \<and> best_orientation b = Some i \<and> best_insert b = Some ins
               \<and> i < length (orientation_indices
                               (waypoints st ! (shuffle_engine rng_seed (length elements) ! k)))
               \<and> ins \<le> length (path st)))
         \<and> (elements \<noteq> [] \<longrightarrow>
              (\<exists>r. findPath vSize shuffle_engine get_orientations elements element_orientations
                      starting_point = Inr r))
         \<and> (\<forall>(st :: 'e tsp_state) w. orientation_indices (waypoints st ! w) = [] \<longrightarrow>
               insert_round vSize starting_point st w = Inl UninitialisedRead)
         \<and> (\<forall>(heap :: 'e Waypoint list) shuffled p.
               orientation_indices (heap ! (shuffled ! 0)) = [] \<longrightarrow>
               seed_path vSize (Some p) heap shuffled = Inl UninitialisedRead)"
proof -
  have round: "\<exists>st b ins i.
               state_after vSize shuffle_engine get_orientations elements starting_point (k - 1) = Inr st
               \<and> (\<forall>p\<in>set (path st). p < length (waypoints st) \<and> placed_ok (waypoints st ! p))
               \<and> find_best_insertion vSize starting_point (waypoints st) (path st)
                    (shuffle_engine rng_seed (length elements) ! k) = Inr b
               \<and> best_distance b <s INT64_MAX
               \<and> best_orientation b = Some i \<and> best_insert b = Some ins
               \<and> i < length (orientation_indices
                               (waypoints st ! (shuffle_engine rng_seed (length elements) ! k)))
               \<and> ins \<le> length (path st)"
    if k: "0 < k" "k < length elements" for k
  proof -
    let ?w = "shuffle_engine rng_seed (length elements) ! k"
    from round_of_findPath [where elements = elements and get_orientations = get_orientations
        and vSize = vSize and shuffle_engine = shuffle_engine and k = k and sp = starting_point,
        OF assms k]
    obtain st
      where run: "state_after vSize shuffle_engine get_orientations elements starting_point (k - 1) = Inr st"
        and inv: "path_inv st"
        and m: "orientation_indices (waypoints st ! ?w) \<noteq> []"
      by blast
    from inv have ok: "\<forall>p\<in>set (path st). p < length (waypoints st) \<and> placed_ok (waypoints st ! p)"
      by (simp add: path_inv_def)
    from round_optimal [OF inv m assms(2), of starting_point] obtain b ins i
      where fb: "find_best_insertion vSize starting_point (waypoints st) (path st) ?w = Inr b"
        and lt: "best_distance b <s INT64_MAX"
        and bo: "best_orientation b = Some i" and bi: "best_insert b = Some ins"
        and i: "i < length (orientation_indices (waypoints st ! ?w))"
        and ins: "ins \<le> length (path st)"
      by blast
    show ?thesis
      by (intro exI [of _ st] exI [of _ b] exI [of _ ins] exI [of _ i] conjI run ok fb lt bo bi i ins)
  qed
  have total: "\<exists>r. findPath vSize shuffle_engine get_orientations elements element_orientations
                      starting_point = Inr r" if ne: "elements \<noteq> []"
    using findPath_run [where elements = elements and get_orientations = get_orientations
      and vSize = vSize and shuffle_engine = shuffle_engine and sp = starting_point
      and element_orientations = element_orientations, OF ne assms]
    by blast
  have bad1: "insert_round vSize starting_point st w = Inl UninitialisedRead"
    if "orientation_indices (waypoints st ! w) = []" for st :: "'e tsp_state" and w
    using that by (rule insert_round_no_orientations)
  have bad2: "seed_path vSize (Some p) heap shuffled = Inl UninitialisedRead"
    if "orientation_indices (heap ! (shuffled ! 0)) = []" for heap :: "'e Waypoint list" and shuffled p
    using that by (rule seed_path_no_orientations)
  show ?thesis
  proof (intro conjI allI impI)
    fix k assume "0 < k" "k < length elements"
    then show "\<exists>st b ins i.
               state_after vSize shuffle_engine get_orientations elements starting_point (k - 1) = Inr st
               \<and> (\<forall>p\<in>set (path st). p < length (waypoints st) \<and> placed_ok (waypoints st ! p))
               \<and> find_best_insertion vSize starting_point (waypoints st) (path st)
                    (shuffle_engine rng_seed (length elements) ! k) = Inr b
               \<and> best_distance b <s INT64_MAX
               \<and> best_orientation b = Some i \<and> best_insert b = Some ins
               \<and> i < length (orientation_indices
                               (waypoints st ! (shuffle_engine rng_seed (length elements) ! k)))
               \<and> ins \<le> length (path st)"
      by (rule round)
  next
    assume "elements \<noteq> []"
    then show "\<exists>r. findPath vSize shuffle_engine get_orientations elements element_orientations
                      starting_point = Inr r"
      by (rule total)
  next
    fix st :: "'e tsp_state" and w
    assume "orientation_indices (waypoints st ! w) = []"
    then show "insert_round vSize starting_point st w = Inl UninitialisedRead"
      by (rule bad1)
  next
    fix heap :: "'e Waypoint list" and shuffled p
    assume "orientation_indices (heap ! (shuffled ! 0)) = []"
    then show "seed_path vSize (Some p) heap shuffled = Inl UninitialisedRead"
      by (rule bad2)
  qed
qed


theorem every_scan_finds_a_candidate_witness:
  "(\<exists>st b ins i.
      state_after example_vSize example_engine example_orientations [5, 1, 3] None (1 - 1) = Inr st
      \<and> (\<forall>p\<in>set (path st). p < length (waypoints st) \<and> placed_ok (waypoints st ! p))
      \<and> find_best_insertion example_vSize None (waypoints st) (path st)
           (example_engine rng_seed (length [5, 1, 3 :: nat]) ! 1) = Inr b
      \<and> best_distance b <s INT64_MAX
      \<and> best_orientation b = Some i \<and> best_insert b = Some ins
      \<and> i < length (orientation_indices
                      (waypoints st ! (example_engine rng_seed (length [5, 1, 3 :: nat]) ! 1)))
      \<and> ins \<le> length (path st))
   \<and> (\<exists>r. findPath example_vSize example_engine example_orientations [5, 1, 3] [] None = Inr r)
   \<and> insert_round example_vSize None
        (seeded (fillWaypoints (\<lambda>e. if e = 5 then [] else example_orientations e) [5, 1]) 1 0) 0
       = Inl UninitialisedRead
   \<and> seed_path example_vSize (Some \<lparr>X = 0, Y = 0\<rparr>)
        (fillWaypoints (\<lambda>e. if e = 5 then [] else example_orientations e) [5 :: nat]) [0]
       = Inl UninitialisedRead"
proof -
  let ?bad = "\<lambda>e :: nat. if e = 5 then [] else example_orientations e"
  have pre: "\<forall>e\<in>set [5, 1, 3]. example_orientations e \<noteq> []"
    "mset (example_engine rng_seed (length [5, 1, 3 :: nat])) = mset [0..<length [5, 1, 3 :: nat]]"
    by (simp_all add: example_orientations_ok example_engine_ok)
  note inst = every_scan_finds_a_candidate [where elements = "[5, 1, 3]"
      and get_orientations = example_orientations and vSize = example_vSize
      and shuffle_engine = example_engine and starting_point = None
      and element_orientations = "[]", OF pre(1) example_vSize_ok pre(2)]
  have k: "0 < (1 :: nat)" "1 < length [5, 1, 3 :: nat]" "[5, 1, 3 :: nat] \<noteq> []" by simp_all
  have e1: "orientation_indices (waypoints (seeded (fillWaypoints ?bad [5, 1]) 1 0) ! 0) = []"
    by (simp add: seeded_fields fillWaypoints_def)
  have e2: "orientation_indices (fillWaypoints ?bad [5 :: nat] ! ([0] ! 0)) = []"
    by (simp add: fillWaypoints_def)
  note c1 = inst [THEN conjunct1, THEN spec, THEN mp, THEN mp, OF k(1) k(2)]
  note c2 = inst [THEN conjunct2, THEN conjunct1, THEN mp, OF k(3)]
  note c3 = inst [THEN conjunct2, THEN conjunct2, THEN conjunct1, THEN spec, THEN spec, THEN mp,
      OF e1]
  note c4 = inst [THEN conjunct2, THEN conjunct2, THEN conjunct2, THEN spec, THEN spec, THEN spec,
      THEN mp, OF e2]
  show ?thesis by (intro conjI c1 c2 c3 c4)
qed

text \<open>
  Claim C5.  The three \<^verbatim>\<open>tryInsert\<close> functions offer to the running minimum, for every
  orientation \<open>i\<close> of the candidate in ascending order, the cost:
  front, the distance from the starting point to the candidate's entry (0 without a starting
  point) plus the distance from the candidate's exit to the chosen entry of the first
  waypoint; back, the distance from the chosen exit of the last waypoint to the candidate's
  entry; middle, the distance from the chosen exit of the previous waypoint to the
  candidate's entry, plus the distance from the candidate's exit to the chosen entry of the
  next waypoint, minus the distance from the previous waypoint's chosen exit to the next
  waypoint's chosen entry.  The scan of a round uses them by position.  Every distance is
  \<^verbatim>\<open>vSize\<close> of the difference of the two points.  The sums are \<^verbatim>\<open>int64_t\<close> sums; when
  \<^verbatim>\<open>vSize\<close> stays within 32 bits they do not
  wrap around and equal the sums of the distances as integers.
\<close>

theorem insertion_cost_formulas:
  "(placed_ok (heap ! (result ! first_element)) \<longrightarrow>
      tryInsertFirst vSize heap w starting_point result first_element b =
        Inr (scan_candidates
               (map (\<lambda>i. ((case starting_point of
                               None \<Rightarrow> 0
                             | Some sp \<Rightarrow> distance vSize sp (entry_point (heap ! w) i))
                           + distance vSize (exit_point (heap ! w) i)
                               (chosen_entry (heap ! (result ! first_element))),
                           first_element, i))
                  [0..<length (orientation_indices (heap ! w))]) b))
   \<and> (placed_ok (heap ! (result ! last_element)) \<longrightarrow>
      tryInsertLast vSize heap w result last_element after_insert b =
        Inr (scan_candidates
               (map (\<lambda>i. (distance vSize (chosen_exit (heap ! (result ! last_element)))
                             (entry_point (heap ! w) i),
                           after_insert, i))
                  [0..<length (orientation_indices (heap ! w))]) b))
   \<and> (placed_ok (heap ! (result ! before_insert)) \<longrightarrow>
      placed_ok (heap ! (result ! after_insert)) \<longrightarrow>
      tryInsertMiddle vSize heap w result before_insert after_insert b =
        Inr (scan_candidates
               (map (\<lambda>i. (distance vSize (chosen_exit (heap ! (result ! before_insert)))
                             (entry_point (heap ! w) i)
                           + distance vSize (exit_point (heap ! w) i)
                               (chosen_entry (heap ! (result ! after_insert)))
                           - distance vSize (chosen_exit (heap ! (result ! before_insert)))
                               (chosen_entry (heap ! (result ! after_insert))),
                           after_insert, i))
                  [0..<length (orientation_indices (heap ! w))]) b))
   \<and> (result \<noteq> [] \<longrightarrow> (\<forall>p\<in>set result. placed_ok (heap ! p)) \<longrightarrow>
      find_best_insertion vSize starting_point heap result w =
        Inr (scan_candidates (round_candidates vSize starting_point heap result w) sentinel))
   \<and> (\<forall>p q. distance vSize p q = vSize (point_minus p q))
   \<and> ((\<forall>p. 0 \<le> sint (vSize p) \<and> sint (vSize p) < 2 ^ 32) \<longrightarrow>
      (\<forall>sp (c :: 'e Waypoint) i f prev_element next_element.
         sint (front_cost vSize None c i f)
           = sint (distance vSize (exit_point c i) (chosen_entry f))
         \<and> sint (front_cost vSize (Some sp) c i f)
           = sint (distance vSize sp (entry_point c i))
             + sint (distance vSize (exit_point c i) (chosen_entry f))
         \<and> sint (back_cost vSize c i f)
           = sint (distance vSize (chosen_exit f) (entry_point c i))
         \<and> sint (middle_cost vSize c i prev_element next_element)
           = sint (distance vSize (chosen_exit prev_element) (entry_point c i))
             + sint (distance vSize (exit_point c i) (chosen_entry next_element))
             - sint (distance vSize (chosen_exit prev_element) (chosen_entry next_element))))"
proof (intro conjI impI allI)
  let ?m = "length (orientation_indices (heap ! w))"
  have all: "\<forall>i\<in>set [0..<?m]. i < ?m" by simp
  show "tryInsertFirst vSize heap w starting_point result first_element b =
        Inr (scan_candidates
               (map (\<lambda>i. ((case starting_point of
                               None \<Rightarrow> 0
                             | Some sp \<Rightarrow> distance vSize sp (entry_point (heap ! w) i))
                           + distance vSize (exit_point (heap ! w) i)
                               (chosen_entry (heap ! (result ! first_element))),
                           first_element, i))
                  [0..<?m]) b)"
    if "placed_ok (heap ! (result ! first_element))"
    unfolding tryInsertFirst_def tryInsertFirst_loop_scan [OF that all] front_cost_def ..
  show "tryInsertLast vSize heap w result last_element after_insert b =
        Inr (scan_candidates
               (map (\<lambda>i. (distance vSize (chosen_exit (heap ! (result ! last_element)))
                             (entry_point (heap ! w) i),
                           after_insert, i))
                  [0..<?m]) b)"
    if "placed_ok (heap ! (result ! last_element))"
    unfolding tryInsertLast_def tryInsertLast_loop_scan [OF that all] back_cost_def ..
  show "tryInsertMiddle vSize heap w result before_insert after_insert b =
        Inr (scan_candidates
               (map (\<lambda>i. (distance vSize (chosen_exit (heap ! (result ! before_insert)))
                             (entry_point (heap ! w) i)
                           + distance vSize (exit_point (heap ! w) i)
                               (chosen_entry (heap ! (result ! after_insert)))
                           - distance vSize (chosen_exit (heap ! (result ! before_insert)))
                               (chosen_entry (heap ! (result ! after_insert))),
                           after_insert, i))
                  [0..<?m]) b)"
    if "placed_ok (heap ! (result ! before_insert))" "placed_ok (heap ! (result ! after_insert))"
    unfolding tryInsertMiddle_def tryInsertMiddle_loop_scan [OF that all] middle_cost_def ..
  show "find_best_insertion vSize starting_point heap result w =
        Inr (scan_candidates (round_candidates vSize starting_point heap result w) sentinel)"
    if "result \<noteq> []" "\<forall>p\<in>set result. placed_ok (heap ! p)"
    using that by (rule find_best_insertion_scan)
  show "distance vSize p q = vSize (point_minus p q)" for p q
    by (simp add: distance_def)
next
  fix sp and c :: "'e Waypoint" and i f prev_element next_element
  assume small: "\<forall>p. 0 \<le> sint (vSize p) \<and> sint (vSize p) < 2 ^ 32"
  have d: "0 \<le> sint (distance vSize p q)" "sint (distance vSize p q) < 2 ^ 32" for p q
    using small by (simp_all add: distance_def)
  show "sint (front_cost vSize None c i f) = sint (distance vSize (exit_point c i) (chosen_entry f))"
    by (simp add: front_cost_def)
  show "sint (front_cost vSize (Some sp) c i f)
           = sint (distance vSize sp (entry_point c i))
             + sint (distance vSize (exit_point c i) (chosen_entry f))"
    unfolding front_cost_def option.case by (intro sint_add_small d)
  show "sint (back_cost vSize c i f) = sint (distance vSize (chosen_exit f) (entry_point c i))"
    by (simp add: back_cost_def)
  show "sint (middle_cost vSize c i prev_element next_element)
           = sint (distance vSize (chosen_exit prev_element) (entry_point c i))
             + sint (distance vSize (exit_point c i) (chosen_entry next_element))
             - sint (distance vSize (chosen_exit prev_element) (chosen_entry next_element))"
    unfolding middle_cost_def by (intro sint_add_sub_small d)
qed


theorem insertion_cost_formulas_witness:
  "tryInsertFirst example_vSize example_heap 2 (Some \<lparr>X = 0, Y = 0\<rparr>) [0, 1] 0 sentinel =
     Inr (scan_candidates
            (map (\<lambda>i. (distance example_vSize \<lparr>X = 0, Y = 0\<rparr> (entry_point (example_heap ! 2) i)
                        + distance example_vSize (exit_point (example_heap ! 2) i)
                            (chosen_entry (example_heap ! ([0, 1] ! 0))),
                        0, i))
               [0..<length (orientation_indices (example_heap ! 2))]) sentinel)
   \<and> tryInsertLast example_vSize example_heap 2 [0, 1] 1 2 sentinel =
     Inr (scan_candidates
            (map (\<lambda>i. (distance example_vSize (chosen_exit (example_heap ! ([0, 1] ! 1)))
                          (entry_point (example_heap ! 2) i),
                        2, i))
               [0..<length (orientation_indices (example_heap ! 2))]) sentinel)
   \<and> tryInsertMiddle example_vSize example_heap 2 [0, 1] 0 1 sentinel =
     Inr (scan_candidates
            (map (\<lambda>i. (distance example_vSize (chosen_exit (example_heap ! ([0, 1] ! 0)))
                          (entry_point (example_heap ! 2) i)
                        + distance example_vSize (exit_point (example_heap ! 2) i)
                            (chosen_entry (example_heap ! ([0, 1] ! 1)))
                        - distance example_vSize (chosen_exit (example_heap ! ([0, 1] ! 0)))
                            (chosen_entry (example_heap ! ([0, 1] ! 1))),
                        1, i))
               [0..<length (orientation_indices (example_heap ! 2))]) sentinel)
   \<and> find_best_insertion example_vSize (Some \<lparr>X = 0, Y = 0\<rparr>) example_heap [0, 1] 2 =
     Inr (scan_candidates
            (round_candidates example_vSize (Some \<lparr>X = 0, Y = 0\<rparr>) example_heap [0, 1] 2) sentinel)
   \<and> middle_cost example_vSize (example_heap ! 2) 0 (example_heap ! 0) (example_heap ! 1) = 10
   \<and> sint (middle_cost example_vSize (example_heap ! 2) 0 (example_heap ! 0) (example_heap ! 1))
     = sint (distance example_vSize (chosen_exit (example_heap ! 0)) (entry_point (example_heap ! 2) 0))
       + sint (distance example_vSize (exit_point (example_heap ! 2) 0) (chosen_entry (example_heap ! 1)))
       - sint (distance example_vSize (chosen_exit (example_heap ! 0)) (chosen_entry (example_heap ! 1)))"
proof -
  let ?sp = "Some \<lparr>X = 0, Y = 0\<rparr>"
  have p0: "placed_ok (example_heap ! ([0, 1] ! 0))" and p1: "placed_ok (example_heap ! ([0, 1] ! 1))"
    by (simp_all add: placed_ok_def example_heap_def example_orientations_def)
  have ne: "[0, 1 :: nat] \<noteq> []" by simp
  have all: "\<forall>p\<in>set [0, 1]. placed_ok (example_heap ! p)"
    using p0 p1 by simp
  have small: "\<forall>p. 0 \<le> sint (example_vSize p) \<and> sint (example_vSize p) < 2 ^ 32"
    using example_vSize_small by blast
  note a = insertion_cost_formulas [where vSize = example_vSize and heap = example_heap
      and result = "[0, 1]" and w = 2 and starting_point = ?sp and b = sentinel
      and first_element = 0 and before_insert = 0 and after_insert = 1 and last_element = 1]
  note l = insertion_cost_formulas [where vSize = example_vSize and heap = example_heap
      and result = "[0, 1]" and w = 2 and starting_point = ?sp and b = sentinel
      and first_element = 0 and before_insert = 0 and after_insert = 2 and last_element = 1]
  note c1 = a [THEN conjunct1, THEN mp, OF p0]
  note c2 = l [THEN conjunct2, THEN conjunct1, THEN mp, OF p1]
  note c3 = a [THEN conjunct2, THEN conjunct2, THEN conjunct1, THEN mp, THEN mp, OF p0 p1]
  note c4 = a [THEN conjunct2, THEN conjunct2, THEN conjunct2, THEN conjunct1, THEN mp, THEN mp,
      OF ne all]
  note ints = a [THEN conjunct2, THEN conjunct2, THEN conjunct2, THEN conjunct2, THEN conjunct2,
      THEN mp, OF small]
  have c5: "middle_cost example_vSize (example_heap ! 2) 0 (example_heap ! 0) (example_heap ! 1) = 10"
    by (simp add: middle_cost_def distance_def chosen_exit_def chosen_entry_def entry_point_def
        exit_point_def example_heap_def example_orientations_def point_minus_def example_vSize_def)
  from ints have c6: "sint (middle_cost example_vSize (example_heap ! 2) 0 (example_heap ! 0) (example_heap ! 1))
     = sint (distance example_vSize (chosen_exit (example_heap ! 0)) (entry_point (example_heap ! 2) 0))
       + sint (distance example_vSize (exit_point (example_heap ! 2) 0) (chosen_entry (example_heap ! 1)))
       - sint (distance example_vSize (chosen_exit (example_heap ! 0)) (chosen_entry (example_heap ! 1)))"
    by blast
  from c1 have c1': "tryInsertFirst example_vSize example_heap 2 ?sp [0, 1] 0 sentinel =
     Inr (scan_candidates
            (map (\<lambda>i. (distance example_vSize \<lparr>X = 0, Y = 0\<rparr> (entry_point (example_heap ! 2) i)
                        + distance example_vSize (exit_point (example_heap ! 2) i)
                            (chosen_entry (example_heap ! ([0, 1] ! 0))),
                        0, i))
               [0..<length (orientation_indices (example_heap ! 2))]) sentinel)"
    by (simp only: option.case)
  show ?thesis by (intro conjI c1' c2 c3 c4 c5 c6)
qed

end
